theory Spec2Isabelle
  imports
    Main
    "HOL-Library.Word"
    "HOL-Library.Char_ord"
    "HOL-Library.List_Lexorder"
    "HOL-Library.Multiset"
begin

unbundle bit_operations_syntax

section \<open>Library functions used by the program\<close>

text \<open>
  The Go standard library is not part of the repository. The functions of it that the
  program calls are modelled here on byte strings (\<^typ>\<open>string\<close> is a list of 8-bit
  characters, as a Go string is a sequence of bytes). The platform is a 64-bit one
  (Go's \<open>int\<close> is 64 bits wide), as on the runner named in the repository's workflow.

  Two parts of the library are not modelled and are parameters, the fields of \<open>lib\<close>:
  the parser of the text form of IPv6 addresses, and the Unicode case mapping that
  \<open>strings.ToUpper\<close> applies to a string with a byte outside ASCII. Every function that
  reaches one of them takes \<open>lib\<close>, and every theorem holds whatever the two return.
\<close>

text \<open>An address is the 16 bytes \<open>net.ParseIP\<close> returns.\<close>

type_synonym IP = "8 word list"

datatype stdlib =
  Stdlib (parseIPv6: "string \<Rightarrow> IP option") (unicodeUpper: "string \<Rightarrow> string")

text \<open>
  An instance of the parameters for the concrete inputs below: it rejects every IPv6
  text and keeps a string that is not ASCII as it is.
\<close>

abbreviation ascii_lib :: stdlib where
  "ascii_lib \<equiv> Stdlib (\<lambda>s. None) (\<lambda>s. s)"

subsection \<open>strings, strconv, fmt\<close>

definition isDigit :: "char \<Rightarrow> bool" where
  "isDigit c = (CHR ''0'' \<le> c \<and> c \<le> CHR ''9'')"

definition digitVal :: "char \<Rightarrow> nat" where
  "digitVal c = of_char c - 48"

text \<open>The value of a string of decimal digits, most significant digit first.\<close>

fun digitsVal :: "nat \<Rightarrow> string \<Rightarrow> nat" where
  "digitsVal acc [] = acc"
| "digitsVal acc (c # cs) = digitsVal (acc * 10 + digitVal c) cs"

text \<open>
  \<open>strconv.Atoi\<close>: an optional sign, then one or more decimal digits and nothing else;
  a value outside the 64-bit \<open>int\<close> is a range error. \<open>None\<close> is the non-nil error.
\<close>

definition Atoi :: "string \<Rightarrow> int option" where
  "Atoi s =
     (let neg = (s \<noteq> [] \<and> hd s = CHR ''-'');
          ds = (if s \<noteq> [] \<and> (hd s = CHR ''-'' \<or> hd s = CHR ''+'') then tl s else s)
      in if ds = [] \<or> \<not> list_all isDigit ds then None
         else let n = int (digitsVal 0 ds); v = (if neg then - n else n)
              in if v < - (2 ^ 63) \<or> 2 ^ 63 \<le> v then None else Some v)"

text \<open>The verb \<open>%d\<close> of \<open>fmt.Sprintf\<close> on a non-negative number.\<close>

definition digitChar :: "nat \<Rightarrow> char" where
  "digitChar d = ''0123456789'' ! d"

function fmt_d :: "nat \<Rightarrow> string" where
  "fmt_d n = (if n < 10 then [digitChar n] else fmt_d (n div 10) @ [digitChar (n mod 10)])"
  by pat_completeness auto
termination
  by (relation "measure (\<lambda>n. n)") simp_all

declare fmt_d.simps [simp del]

text \<open>
  \<open>strings.ToUpper\<close>: when every byte of the string is ASCII (below 0x80), the
  letters a to z are mapped to A to Z and every other byte is kept; otherwise the
  result is that of the library's Unicode mapping of the whole string.
\<close>

definition upperChar :: "char \<Rightarrow> char" where
  "upperChar c =
     (if CHR ''a'' \<le> c \<and> c \<le> CHR ''z''
      then ''ABCDEFGHIJKLMNOPQRSTUVWXYZ'' ! (of_char c - 97)
      else c)"

definition ToUpper :: "stdlib \<Rightarrow> string \<Rightarrow> string" where
  "ToUpper lib s =
     (if list_all (\<lambda>c. c < CHR 0x80) s then map upperChar s else unicodeUpper lib s)"

definition HasPrefix :: "string \<Rightarrow> string \<Rightarrow> bool" where
  "HasPrefix s p = (take (length p) s = p)"

text \<open>\<open>strings.Split\<close> with a one-byte separator: never empty, empty fields are kept.\<close>

fun Split :: "string \<Rightarrow> char \<Rightarrow> string list" where
  "Split [] sep = [[]]"
| "Split (c # cs) sep =
     (if c = sep then [] # Split cs sep
      else (case Split cs sep of [] \<Rightarrow> [[c]] | p # ps \<Rightarrow> (c # p) # ps))"

subsection \<open>bufio.Scanner\<close>

datatype error = ErrTooLong | TransportError string

text \<open>
  The scanner over an in-memory reader, with the default line splitter and the token
  limit the program sets: the lines of the text without their terminator (a line feed,
  or a carriage return and a line feed), a last line with no terminator included, no
  token for the empty rest after the last line feed. A line of \<open>maxTokenSize\<close> bytes or
  more before its line feed stops the scan with \<open>ErrTooLong\<close>. The result is the list
  of tokens \<open>sc.Scan\<close> delivers and the final \<open>sc.Err()\<close>.
\<close>

definition maxTokenSize :: nat where
  "maxTokenSize = 4 * 1024 * 1024"

definition dropCR :: "string \<Rightarrow> string" where
  "dropCR l = (if l \<noteq> [] \<and> last l = CHR 0x0D then butlast l else l)"

function Scanner :: "string \<Rightarrow> string list \<times> error option" where
  "Scanner s =
     (if s = [] then ([], None)
      else let line = takeWhile (\<lambda>c. c \<noteq> CHR 0x0A) s;
               rest = drop 1 (dropWhile (\<lambda>c. c \<noteq> CHR 0x0A) s)
           in if maxTokenSize \<le> length line then ([], Some ErrTooLong)
              else (case Scanner rest of (ls, e) \<Rightarrow> (dropCR line # ls, e)))"
  by pat_completeness auto
termination
proof (relation "measure length")
  show "wf (measure length)" by simp
next
  fix s :: string and line rest
  assume "s \<noteq> []" and "rest = drop 1 (dropWhile (\<lambda>c. c \<noteq> CHR 0x0A) s)"
  moreover have "length (dropWhile (\<lambda>c. c \<noteq> CHR 0x0A) s) \<le> length s"
    by (rule length_dropWhile_le)
  ultimately show "(rest, s) \<in> measure length"
    by (cases s) auto
qed

declare Scanner.simps [simp del]

subsection \<open>net.ParseIP\<close>

text \<open>
  A dotted-decimal text gives the IPv4-mapped form of the address. The text form of
  IPv6 (any text whose first separator is a colon) is read by the library's IPv6
  parser, the field \<open>parseIPv6\<close> of \<open>lib\<close>.
\<close>

text \<open>
  Dotted decimal: four fields of digits, each at most 255 and without a leading zero,
  separated by single dots. The state is the fields read so far, the value and the
  number of digits of the current field, and the previous byte.
\<close>

fun parseIPv4_loop :: "string \<Rightarrow> nat list \<Rightarrow> nat \<Rightarrow> nat \<Rightarrow> char option \<Rightarrow> nat list option" where
  "parseIPv4_loop [] fields val digLen prev =
     (if length fields < 3 then None else Some (fields @ [val]))"
| "parseIPv4_loop (c # cs) fields val digLen prev =
     (if isDigit c then
        (if digLen = 1 \<and> val = 0 then None
         else let val' = val * 10 + digitVal c
              in if 255 < val' then None
                 else parseIPv4_loop cs fields val' (digLen + 1) (Some c))
      else if c = CHR ''.'' then
        (if prev = None \<or> cs = [] \<or> prev = Some (CHR ''.'') then None
         else if length fields = 3 then None
         else parseIPv4_loop cs (fields @ [val]) 0 0 (Some c))
      else None)"

definition parseIPv4 :: "string \<Rightarrow> IP option" where
  "parseIPv4 s =
     (case parseIPv4_loop s [] 0 0 None of
        None \<Rightarrow> None
      | Some fields \<Rightarrow> Some ([0, 0, 0, 0, 0, 0, 0, 0, 0, 0, 0xFF, 0xFF] @ map of_nat fields))"

text \<open>The first dot, colon or percent sign of the text selects the parser.\<close>

fun ParseAddr :: "stdlib \<Rightarrow> string \<Rightarrow> string \<Rightarrow> IP option" where
  "ParseAddr lib s [] = None"
| "ParseAddr lib s (c # cs) =
     (if c = CHR ''.'' then parseIPv4 s
      else if c = CHR '':'' then parseIPv6 lib s
      else if c = CHR ''%'' then None
      else ParseAddr lib s cs)"

definition ParseIP :: "stdlib \<Rightarrow> string \<Rightarrow> IP option" where
  "ParseIP lib s = ParseAddr lib s s"

text \<open>\<open>IP.To4\<close>: the last four bytes of an IPv4 or IPv4-mapped address, else nil.\<close>

definition To4 :: "IP \<Rightarrow> IP option" where
  "To4 ip =
     (if length ip = 4 then Some ip
      else if length ip = 16 \<and> take 10 ip = [0, 0, 0, 0, 0, 0, 0, 0, 0, 0] \<and>
              ip ! 10 = 0xFF \<and> ip ! 11 = 0xFF
      then Some (drop 12 ip)
      else None)"

section \<open>internal/rir/parse.go\<close>

record Record =
  Prefix :: string
  Country :: string

definition isCountryCode :: "string \<Rightarrow> bool" where
  "isCountryCode cc = (length cc = 2 \<and> list_all (\<lambda>r. \<not> (r < CHR ''A'' \<or> CHR ''Z'' < r)) cc)"

definition ipToUint32 :: "IP \<Rightarrow> 32 word" where
  "ipToUint32 ip =
     push_bit 24 (ucast (ip ! 0)) OR push_bit 16 (ucast (ip ! 1)) OR
     push_bit 8 (ucast (ip ! 2)) OR ucast (ip ! 3)"

definition byte :: "32 word \<Rightarrow> 8 word" where
  "byte v = ucast v"

definition uint32ToIP :: "32 word \<Rightarrow> string" where
  "uint32ToIP v =
     fmt_d (unat (byte (drop_bit 24 v))) @ ''.'' @ fmt_d (unat (byte (drop_bit 16 v))) @ ''.'' @
     fmt_d (unat (byte (drop_bit 8 v))) @ ''.'' @ fmt_d (unat (byte v))"

text \<open>
  The inner loop of \<open>ipv4RangeToCIDRs\<close>: \<open>prefix\<close> starts at 32 and is decremented
  while the block of that prefix length is misaligned at \<open>cur\<close> or does not fit below
  \<open>endU\<close>; the loop stops at the first prefix length whose block is aligned and fits,
  or at 0.
\<close>

function prefix_search :: "32 word \<Rightarrow> 32 word \<Rightarrow> nat \<Rightarrow> nat" where
  "prefix_search cur endU prefix =
     (if 0 < prefix then
        (let block = push_bit (32 - prefix) (1 :: 32 word)
         in if cur mod block \<noteq> 0 \<or> endU < cur + block - 1
            then prefix_search cur endU (prefix - 1)
            else prefix)
      else prefix)"
  by pat_completeness auto
termination
  by (relation "measure (\<lambda>(cur, endU, prefix). prefix)") simp_all

declare prefix_search.simps [simp del]

text \<open>A block is a start address and a prefix length; this is the record emitted for it.\<close>

definition block_record :: "string \<Rightarrow> 32 word \<times> nat \<Rightarrow> Record" where
  "block_record cc b = \<lparr>Prefix = uint32ToIP (fst b) @ ''/'' @ fmt_d (snd b), Country = cc\<rparr>"

text \<open>
  The outer loop, on 32-bit unsigned arithmetic that wraps around. It is a loop that
  need not end: \<open>None\<close> is the run that never returns.
\<close>

partial_function (option) ipv4_loop ::
  "32 word \<Rightarrow> 32 word \<Rightarrow> string \<Rightarrow> Record list \<Rightarrow> Record list option" where
  "ipv4_loop cur endU cc out =
     (if cur \<le> endU then
        (let prefix = prefix_search cur endU 32
         in ipv4_loop (cur + push_bit (32 - prefix) 1) endU cc
              (out @ [block_record cc (cur, prefix)]))
      else Some out)"

declare ipv4_loop.simps [code]

definition ipv4RangeToCIDRs :: "stdlib \<Rightarrow> string \<Rightarrow> string \<Rightarrow> string \<Rightarrow> Record list option" where
  "ipv4RangeToCIDRs lib start val cc =
     (case ParseIP lib start of
        None \<Rightarrow> Some []
      | Some ip \<Rightarrow>
          (case To4 ip of
             None \<Rightarrow> Some []
           | Some ip4 \<Rightarrow>
               (case Atoi val of
                  None \<Rightarrow> Some []
                | Some count' \<Rightarrow>
                    if count' \<le> 0 then Some []
                    else let startU = ipToUint32 ip4;
                             endU = startU + word_of_int count' - 1
                         in ipv4_loop startU endU cc [])))"

definition ipv6ToCIDR :: "stdlib \<Rightarrow> string \<Rightarrow> string \<Rightarrow> string \<Rightarrow> Record option" where
  "ipv6ToCIDR lib start val cc =
     (case ParseIP lib start of
        None \<Rightarrow> None
      | Some ip \<Rightarrow>
          if To4 ip \<noteq> None then None
          else (case Atoi val of
                  None \<Rightarrow> None
                | Some pfx \<Rightarrow>
                    if pfx < 0 \<or> 128 < pfx then None
                    else Some \<lparr>Prefix = start @ ''/'' @ fmt_d (nat pfx), Country = cc\<rparr>))"

text \<open>
  The body of the scanning loop for one line: the records the line appends to \<open>out\<close>
  (none where the source says \<open>continue\<close>), or \<open>None\<close> when the IPv4 loop never returns.
\<close>

definition process_line :: "stdlib \<Rightarrow> string \<Rightarrow> Record list option" where
  "process_line lib line =
     (if line = [] \<or> HasPrefix line ''#'' then Some []
      else let parts = Split line (CHR ''|'')
           in if length parts < 7 then Some []
              else let cc = ToUpper lib (parts ! 1);
                       typ = parts ! 2;
                       start = parts ! 3;
                       val = parts ! 4;
                       status = parts ! 6
                   in if status \<noteq> ''allocated'' \<and> status \<noteq> ''assigned'' then Some []
                      else if \<not> isCountryCode cc \<or> cc = ''ZZ'' then Some []
                      else if typ = ''ipv4'' then ipv4RangeToCIDRs lib start val cc
                      else if typ = ''ipv6'' then
                        (case ipv6ToCIDR lib start val cc of
                           None \<Rightarrow> Some []
                         | Some rec \<Rightarrow> Some [rec])
                      else Some [])"

fun parse_lines :: "stdlib \<Rightarrow> string list \<Rightarrow> Record list \<Rightarrow> Record list option" where
  "parse_lines lib [] out = Some out"
| "parse_lines lib (line # ls) out =
     (case process_line lib line of
        None \<Rightarrow> None
      | Some recs \<Rightarrow> parse_lines lib ls (out @ recs))"

text \<open>The records and the scanner's error, as the function returns both.\<close>

definition ParseDelegatedExtended :: "stdlib \<Rightarrow> string \<Rightarrow> (Record list \<times> error option) option" where
  "ParseDelegatedExtended lib body =
     (case Scanner body of
        (ls, err) \<Rightarrow>
          (case parse_lines lib ls [] of
             None \<Rightarrow> None
           | Some out \<Rightarrow> Some (out, err)))"

section \<open>cmd/build-countrydb/main.go\<close>

subsection \<open>fetchWithRetry\<close>

text \<open>
  What one request to a source's URL comes to: \<open>client.Do\<close> fails, reading the body
  fails, or the whole body is read. A server is the outcome of the request made at each
  attempt. The trace lists the requests sent and the waits, in seconds.
\<close>

datatype outcome = ConnectFailed string | DownloadFailed string | Downloaded string

datatype event = Request nat | Sleep nat

definition maxRetries :: nat where
  "maxRetries = 5"

text \<open>The verb \<open>%v\<close> on \<open>lastErr\<close>.\<close>

definition errorText :: "error option \<Rightarrow> string" where
  "errorText e =
     (case e of
        None \<Rightarrow> ''<nil>''
      | Some ErrTooLong \<Rightarrow> ''bufio.Scanner: token too long''
      | Some (TransportError m) \<Rightarrow> m)"

text \<open>
  The loop over \<open>attempt\<close>. A panic is \<open>Inl\<close> of its message; \<open>None\<close> is a run in which
  the parser never returns. (The progress lines printed to standard output are left out.)
\<close>

function fetch_loop ::
  "stdlib \<Rightarrow> (nat \<Rightarrow> outcome) \<Rightarrow> string \<Rightarrow> nat \<Rightarrow> error option \<Rightarrow> event list \<Rightarrow>
     ((string + Record list) \<times> event list) option" where
  "fetch_loop lib server name attempt lastErr tr =
     (if attempt \<le> maxRetries then
        (case server attempt of
           ConnectFailed e \<Rightarrow>
             fetch_loop lib server name (attempt + 1) (Some (TransportError e))
               (tr @ [Request attempt, Sleep (attempt * 10)])
         | DownloadFailed e \<Rightarrow>
             fetch_loop lib server name (attempt + 1) (Some (TransportError e))
               (tr @ [Request attempt, Sleep (attempt * 10)])
         | Downloaded body \<Rightarrow>
             (case ParseDelegatedExtended lib body of
                None \<Rightarrow> None
              | Some (recs, Some err) \<Rightarrow>
                  fetch_loop lib server name (attempt + 1) (Some err) (tr @ [Request attempt])
              | Some (recs, None) \<Rightarrow> Some (Inr recs, tr @ [Request attempt])))
      else Some (Inl (''failed to fetch '' @ name @ '' after '' @ fmt_d maxRetries @
                      '' attempts: '' @ errorText lastErr), tr))"
  by pat_completeness auto
termination
  by (relation "measure (\<lambda>(lib, server, name, attempt, lastErr, tr). Suc maxRetries - attempt)")
     simp_all

declare fetch_loop.simps [simp del]

definition fetchWithRetry ::
  "stdlib \<Rightarrow> (nat \<Rightarrow> outcome) \<Rightarrow> string \<Rightarrow> ((string + Record list) \<times> event list) option" where
  "fetchWithRetry lib server name = fetch_loop lib server name 1 None []"

subsection \<open>build\<close>

text \<open>internal/rir/sources.go: the table of sources.\<close>

definition Sources :: "(string \<times> string) list" where
  "Sources =
     [(''arin'', ''https://ftp.arin.net/pub/stats/arin/delegated-arin-extended-latest''),
      (''ripe'', ''https://ftp.ripe.net/pub/stats/ripencc/delegated-ripencc-extended-latest''),
      (''apnic'', ''https://ftp.apnic.net/stats/apnic/delegated-apnic-extended-latest''),
      (''lacnic'', ''https://ftp.lacnic.net/pub/stats/lacnic/delegated-lacnic-extended-latest''),
      (''afrinic'', ''https://ftp.afrinic.net/pub/stats/afrinic/delegated-afrinic-extended-latest'')]"

text \<open>
  The first loop of \<open>build\<close>. Go iterates over a map in an order it does not fix, so the
  order is an argument: the list \<open>order\<close> of the (name, URL) pairs as the loop meets them.
  \<open>net url\<close> is the server behind a URL.
\<close>

fun fetch_all ::
  "stdlib \<Rightarrow> (string \<Rightarrow> nat \<Rightarrow> outcome) \<Rightarrow> (string \<times> string) list \<Rightarrow> Record list \<Rightarrow> string list \<Rightarrow>
     (string + Record list \<times> string list) option" where
  "fetch_all lib net [] all src = Some (Inr (all, src))"
| "fetch_all lib net ((name, url) # rest) all src =
     (case fetchWithRetry lib (net url) name of
        None \<Rightarrow> None
      | Some (Inl p, tr) \<Rightarrow> Some (Inl p)
      | Some (Inr recs, tr) \<Rightarrow> fetch_all lib net rest (all @ recs) (src @ [name @ ''-delegated'']))"

text \<open>The second loop of \<open>build\<close>: the merge over \<open>all\<close>, with the map \<open>seen\<close>.\<close>

fun merge_loop :: "(string \<rightharpoonup> string) \<Rightarrow> Record list \<Rightarrow> Record list \<Rightarrow> string + Record list" where
  "merge_loop seen out [] = Inr out"
| "merge_loop seen out (r # rs) =
     (if (case seen (Prefix r) of None \<Rightarrow> False | Some prev \<Rightarrow> prev \<noteq> Country r)
      then Inl (''country conflict for prefix '' @ Prefix r)
      else if seen (Prefix r) = None
           then merge_loop (seen(Prefix r \<mapsto> Country r)) (out @ [r]) rs
           else merge_loop seen out rs)"

definition merge :: "Record list \<Rightarrow> string + Record list" where
  "merge all = merge_loop Map.empty [] all"

definition build ::
  "stdlib \<Rightarrow> (string \<Rightarrow> nat \<Rightarrow> outcome) \<Rightarrow> (string \<times> string) list \<Rightarrow>
     (string + Record list \<times> string list) option" where
  "build lib net order =
     (case fetch_all lib net order [] [] of
        None \<Rightarrow> None
      | Some (Inl p) \<Rightarrow> Some (Inl p)
      | Some (Inr (all, src)) \<Rightarrow>
          (case merge all of
             Inl p \<Rightarrow> Some (Inl p)
           | Inr out \<Rightarrow> Some (Inr (out, sort src))))"

subsection \<open>main and writeCSVGZ\<close>

text \<open>
  \<open>sort.Slice\<close> with the comparison \<open>recs[i].Prefix < recs[j].Prefix\<close> on byte strings.
  The library's sort is not stable; it is modelled by the insertion sort of the HOL
  library. The two can differ only on records with equal prefixes (lemma
  \<open>sorted_by_Prefix_unique\<close> below), and \<open>build\<close> returns none.
\<close>

definition sort_Slice :: "Record list \<Rightarrow> Record list" where
  "sort_Slice recs = sort_key Prefix recs"

text \<open>The text handed to the gzip writer: the header line and one line per record.\<close>

definition csv_text :: "Record list \<Rightarrow> string" where
  "csv_text records =
     ''prefix,country'' @ [CHR 0x0A] @
     concat (map (\<lambda>r. Prefix r @ '','' @ Country r @ [CHR 0x0A]) records)"

text \<open>
  \<open>writeCSVGZ\<close>: the bytes of the file, their number and the digest of the bytes in
  hexadecimal. The compression and the hash are the library's; they are the parameters
  \<open>gzip\<close> and \<open>sha256hex\<close>, functions of their input. (File system failures are left out.)
\<close>

definition writeCSVGZ ::
  "(string \<Rightarrow> string) \<Rightarrow> (string \<Rightarrow> string) \<Rightarrow> Record list \<Rightarrow> string \<times> nat \<times> string" where
  "writeCSVGZ gzip sha256hex records =
     (let file = gzip (csv_text records) in (file, length file, sha256hex file))"

text \<open>
  \<open>main\<close> up to the artifact: the file \<open>countrydb.csv.gz\<close>, its size and digest, and the
  list of sources of the manifest.
\<close>

definition main ::
  "stdlib \<Rightarrow> (string \<Rightarrow> string) \<Rightarrow> (string \<Rightarrow> string) \<Rightarrow> (string \<Rightarrow> nat \<Rightarrow> outcome) \<Rightarrow>
     (string \<times> string) list \<Rightarrow> (string + (string \<times> nat \<times> string) \<times> string list) option" where
  "main lib gzip sha256hex net order =
     (case build lib net order of
        None \<Rightarrow> None
      | Some (Inl p) \<Rightarrow> Some (Inl p)
      | Some (Inr (recs, sources)) \<Rightarrow>
          Some (Inr (writeCSVGZ gzip sha256hex (sort_Slice recs), sources)))"

section \<open>Notions of the specification\<close>

text \<open>
  A block is a start address and a prefix length. Its addresses are numbers, so that a
  range running past the last address is told apart from one that does not.
\<close>

type_synonym block = "32 word \<times> nat"

definition block_addrs :: "block \<Rightarrow> int set" where
  "block_addrs b = {uint (fst b) ..< uint (fst b) + 2 ^ (32 - snd b)}"

definition aligned :: "block \<Rightarrow> bool" where
  "aligned b = (snd b \<le> 32 \<and> uint (fst b) mod 2 ^ (32 - snd b) = 0)"

fun non_overlapping :: "block list \<Rightarrow> bool" where
  "non_overlapping [] = True"
| "non_overlapping (b # bs) =
     (list_all (\<lambda>b'. block_addrs b \<inter> block_addrs b' = {}) bs \<and> non_overlapping bs)"

text \<open>
  Two adjacent blocks can be merged into one larger aligned block: they have the same
  size, the second starts where the first ends, and the first starts at a multiple of
  twice that size.
\<close>

definition mergeable :: "block \<Rightarrow> block \<Rightarrow> bool" where
  "mergeable b1 b2 =
     (snd b1 = snd b2 \<and> 0 < snd b1 \<and> snd b1 \<le> 32 \<and>
      uint (fst b2) = uint (fst b1) + 2 ^ (32 - snd b1) \<and>
      uint (fst b1) mod 2 ^ (33 - snd b1) = 0)"

text \<open>The \<open>n\<close> addresses from \<open>a\<close> on, in 32-bit arithmetic.\<close>

definition addrs_from :: "32 word \<Rightarrow> nat \<Rightarrow> 32 word list" where
  "addrs_from a n = map (\<lambda>i. a + of_nat i) [0..<n]"

text \<open>Two records with the same prefix name the same country.\<close>

definition conflict_free :: "Record list \<Rightarrow> bool" where
  "conflict_free rs = list_all (\<lambda>r. list_all (\<lambda>r'. Prefix r = Prefix r' \<longrightarrow> Country r = Country r') rs) rs"

text \<open>
  The state of the merge loop after the records \<open>pre\<close>: the map holds the prefixes met
  so far, each with the country of every record that carries it, and \<open>out\<close> holds, once
  each, the first record of every prefix.
\<close>

definition merge_inv :: "(string \<rightharpoonup> string) \<Rightarrow> Record list \<Rightarrow> Record list \<Rightarrow> bool" where
  "merge_inv seen out pre =
     (dom seen = Prefix ` set pre \<and>
      (\<forall>r\<in>set pre. seen (Prefix r) = Some (Country r)) \<and>
      distinct (map Prefix out) \<and>
      Prefix ` set out = Prefix ` set pre \<and>
      (\<forall>r\<in>set out. find (\<lambda>x. Prefix x = Prefix r) pre = Some r))"

text \<open>A text occurs in a message.\<close>

fun contains :: "string \<Rightarrow> string \<Rightarrow> bool" where
  "contains [] sub = (sub = [])"
| "contains (c # cs) sub = (take (length sub) (c # cs) = sub \<or> contains cs sub)"





text \<open>An attempt that fails in transport: the connection or the reading of the body.\<close>

definition transport_failure :: "outcome \<Rightarrow> bool" where
  "transport_failure x = (case x of Downloaded body \<Rightarrow> False | _ \<Rightarrow> True)"

definition transport_error :: "outcome \<Rightarrow> string" where
  "transport_error x = (case x of ConnectFailed e \<Rightarrow> e | DownloadFailed e \<Rightarrow> e | Downloaded body \<Rightarrow> [])"

text \<open>An attempt whose body is read and rejected by the parser.\<close>

definition parse_failure :: "stdlib \<Rightarrow> outcome \<Rightarrow> bool" where
  "parse_failure lib x =
     (case x of
        Downloaded body \<Rightarrow>
          (case ParseDelegatedExtended lib body of Some (recs, Some err) \<Rightarrow> True | _ \<Rightarrow> False)
      | _ \<Rightarrow> False)"

definition attempt_failed :: "stdlib \<Rightarrow> outcome \<Rightarrow> bool" where
  "attempt_failed lib x = (transport_failure x \<or> parse_failure lib x)"

text \<open>The error a failed attempt leaves in \<open>lastErr\<close>.\<close>

definition attempt_error :: "stdlib \<Rightarrow> outcome \<Rightarrow> error option" where
  "attempt_error lib x =
     (case x of
        ConnectFailed e \<Rightarrow> Some (TransportError e)
      | DownloadFailed e \<Rightarrow> Some (TransportError e)
      | Downloaded body \<Rightarrow>
          (case ParseDelegatedExtended lib body of Some (recs, Some err) \<Rightarrow> Some err | _ \<Rightarrow> None))"

definition is_request :: "event \<Rightarrow> bool" where
  "is_request e = (case e of Request n \<Rightarrow> True | Sleep secs \<Rightarrow> False)"

text \<open>What a failed attempt adds to the trace: its request, and the wait if there is one.\<close>

definition attempt_events :: "(nat \<Rightarrow> outcome) \<Rightarrow> nat \<Rightarrow> event list" where
  "attempt_events server i =
     (if transport_failure (server i) then [Request i, Sleep (i * 10)] else [Request i])"

text \<open>
  The records a source delivers to \<open>build\<close>: those its fetch returns, none when the fetch
  ends in a fatal error or never returns.
\<close>

definition source_records ::
  "stdlib \<Rightarrow> (string \<Rightarrow> nat \<Rightarrow> outcome) \<Rightarrow> string \<times> string \<Rightarrow> Record list option" where
  "source_records lib net src =
     (case fetchWithRetry lib (net (snd src)) (fst src) of
        Some (Inr recs, tr) \<Rightarrow> Some recs
      | _ \<Rightarrow> None)"

section \<open>The IPv4 aggregator\<close>

lemma prefix_search_32: "cur \<le> endU \<Longrightarrow> prefix_search cur endU 32 = 32"
  by (subst prefix_search.simps) (simp add: Let_def flip: not_le)

lemma ipv4_loop_step:
  "cur \<le> endU \<Longrightarrow>
     ipv4_loop cur endU cc out = ipv4_loop (cur + 1) endU cc (out @ [block_record cc (cur, 32)])"
  by (subst ipv4_loop.simps) (simp add: prefix_search_32)

lemma ipv4_loop_exit: "\<not> cur \<le> endU \<Longrightarrow> ipv4_loop cur endU cc out = Some out"
  by (subst ipv4_loop.simps) simp

text \<open>With the last address as its end the loop never returns: its guard is always true.\<close>

lemma ipv4_loop_never_returns: "ipv4_loop cur (- 1) cc out = None"
proof -
  have "e \<noteq> - 1" if "ipv4_loop c e cc out = Some y" for c e y
    by (rule ipv4_loop.raw_induct[where P = "\<lambda>c e cc out y. e \<noteq> - 1", OF _ that])
       (auto split: if_splits simp: Let_def)
  then show ?thesis by (cases "ipv4_loop cur (- 1) cc out") auto
qed

lemma addrs_from_Suc: "addrs_from a (Suc n) = a # addrs_from (a + 1) n"
proof -
  have "[0..<Suc n] = 0 # map Suc [0..<n]"
    by (simp add: upt_conv_Cons map_Suc_upt del: upt_Suc)
  then show ?thesis
    by (simp add: addrs_from_def o_def add.assoc del: upt_Suc)
qed

lemma unat_succ: "(cur :: 32 word) \<noteq> - 1 \<Longrightarrow> unat (cur + 1) = Suc (unat cur)"
proof -
  assume "cur \<noteq> - 1"
  then have "1 + cur \<noteq> 0" by (simp add: eq_neg_iff_add_eq_0 add.commute)
  then have "unat (1 + cur) = Suc (unat cur)" by (rule unatSuc)
  then show ?thesis by (simp add: add.commute)
qed

text \<open>With any other end it returns one block of prefix length 32 for every address.\<close>

lemma ipv4_loop_returns:
  "endU \<noteq> - 1 \<Longrightarrow> n = Suc (unat endU) - unat cur \<Longrightarrow>
     ipv4_loop cur endU cc out =
       Some (out @ map (\<lambda>a. block_record cc (a, 32)) (addrs_from cur n))"
proof (induction n arbitrary: cur out)
  case 0
  then have "\<not> cur \<le> endU" by (simp add: word_le_nat_alt)
  with 0 show ?case by (simp add: ipv4_loop_exit addrs_from_def)
next
  case (Suc n)
  then have le: "cur \<le> endU" by (simp add: word_le_nat_alt)
  have "endU < - 1" using Suc.prems(1) by (simp add: word_order.not_eq_extremum)
  with le have "cur \<noteq> - 1" by auto
  then have "unat (cur + 1) = Suc (unat cur)" by (rule unat_succ)
  with Suc.prems have n: "n = Suc (unat endU) - unat (cur + 1)" by simp
  show ?case
    by (simp add: ipv4_loop_step [OF le] Suc.IH [OF Suc.prems(1) n] addrs_from_Suc)
qed

lemma uint_plus_of_nat:
  "uint a + int i < 2 ^ 32 \<Longrightarrow> uint (a + of_nat i :: 32 word) = uint a + int i"
proof -
  assume b: "uint a + int i < 2 ^ 32"
  have "a + of_nat i = (word_of_int (uint a + int i) :: 32 word)"
    by simp
  then have "uint (a + of_nat i :: 32 word) = (uint a + int i) mod 2 ^ 32"
    by (simp only: uint_word_of_int) simp
  also have "\<dots> = uint a + int i"
    using b by (intro mod_pos_pos_trivial) simp_all
  finally show ?thesis .
qed

lemma addrs_union:
  "uint a + int n < 2 ^ 32 \<Longrightarrow>
     (\<Union>b\<in>set (map (\<lambda>x. (x, 32)) (addrs_from a n)). block_addrs b) = {uint a ..< uint a + int n}"
proof (induction n arbitrary: a)
  case 0
  then show ?case by (simp add: addrs_from_def)
next
  case (Suc n)
  from Suc.prems have lt: "uint a + 1 < 2 ^ 32" by linarith
  then have u: "uint (a + 1) = uint a + 1"
    using uint_plus_of_nat [of a 1] by simp
  with Suc.prems have "uint (a + 1) + int n < 2 ^ 32" by simp
  from Suc.IH [OF this] u show ?case
    by (auto simp add: addrs_from_Suc block_addrs_def)
qed

lemma addrs_non_overlapping:
  "uint a + int n < 2 ^ 32 \<Longrightarrow> non_overlapping (map (\<lambda>x. (x, 32)) (addrs_from a n))"
proof (induction n arbitrary: a)
  case 0
  then show ?case by (simp add: addrs_from_def)
next
  case (Suc n)
  from Suc.prems have lt: "uint a + 1 < 2 ^ 32" by linarith
  then have u: "uint (a + 1) = uint a + 1"
    using uint_plus_of_nat [of a 1] by simp
  with Suc.prems have b: "uint (a + 1) + int n < 2 ^ 32" by simp
  have "block_addrs (a, 32) \<inter> block_addrs (x, 32) = {}" if "x \<in> set (addrs_from (a + 1) n)" for x
  proof -
    from that obtain i where "i < n" and x: "x = a + 1 + of_nat i"
      by (auto simp: addrs_from_def)
    with b have "uint x = uint (a + 1) + int i"
      using uint_plus_of_nat [of "a + 1" i] by simp
    with u show ?thesis by (auto simp: block_addrs_def)
  qed
  with Suc.IH [OF b] show ?case
    by (simp add: addrs_from_Suc list_all_iff)
qed

lemma addrs_aligned: "list_all aligned (map (\<lambda>x. (x, 32)) (addrs_from a n))"
  by (simp add: list_all_iff aligned_def)

lemma ipv4RangeToCIDRs_blocks:
  assumes "ParseIP lib start = Some ip" and "To4 ip = Some ip4" and "Atoi val = Some c"
    and "0 < c" and "uint (ipToUint32 ip4) + c < 2 ^ 32"
  shows "ipv4RangeToCIDRs lib start val cc =
           Some (map (block_record cc) (map (\<lambda>a. (a, 32)) (addrs_from (ipToUint32 ip4) (nat c))))"
proof -
  let ?s = "ipToUint32 ip4"
  let ?e = "?s + word_of_int c - 1"
  from assms have c: "c = int (nat c)" and pos: "0 < nat c" by simp_all
  have "word_of_int c - 1 = (of_nat (nat c - 1) :: 32 word)"
    using pos by (subst c) (simp add: of_nat_diff)
  then have e1: "?e = ?s + of_nat (nat c - 1)"
    by (simp add: add_diff_eq)
  have e2: "uint (?s + of_nat (nat c - 1)) = uint ?s + int (nat c - 1)"
    using assms by (intro uint_plus_of_nat) simp
  have e3: "int (nat c - 1) = c - 1"
    using pos by simp
  have ue: "uint ?e = uint ?s + c - 1"
    unfolding e1 e2 e3 by simp
  have m: "uint (- 1 :: 32 word) = 4294967295"
    by (simp add: unsigned_minus_1_eq_mask mask_eq_exp_minus_1)
  have "uint ?e \<noteq> uint (- 1 :: 32 word)" unfolding ue m using assms by simp
  then have ne: "?e \<noteq> - 1" by auto
  have "int (unat ?e) = int (unat ?s) + c - 1" using ue by simp
  then have n: "nat c = Suc (unat ?e) - unat ?s" using assms by linarith
  show ?thesis
    using assms ipv4_loop_returns [OF ne n, of cc "[]"]
    by (simp add: ipv4RangeToCIDRs_def Let_def o_def)
qed

subsection \<open>Concrete inputs\<close>

lemma ParseIP_1_0_0_0: "ParseIP lib ''1.0.0.0'' = Some [0, 0, 0, 0, 0, 0, 0, 0, 0, 0, 0xFF, 0xFF, 1, 0, 0, 0]"
  by (simp add: ParseIP_def parseIPv4_def isDigit_def digitVal_def)

lemma To4_mapped: "To4 [0, 0, 0, 0, 0, 0, 0, 0, 0, 0, 0xFF, 0xFF, a, b, c, d] = Some [a, b, c, d]"
  by (simp add: To4_def)

lemma ipToUint32_1_0_0_0: "ipToUint32 [1, 0, 0, 0] = 0x01000000"
  by (simp add: ipToUint32_def)

lemma ParseIP_broadcast:
  "ParseIP lib ''255.255.255.255'' = Some [0, 0, 0, 0, 0, 0, 0, 0, 0, 0, 0xFF, 0xFF, 255, 255, 255, 255]"
  by (simp add: ParseIP_def parseIPv4_def isDigit_def digitVal_def)

lemma ipToUint32_broadcast: "ipToUint32 [255, 255, 255, 255] = - 1"
  by (simp add: ipToUint32_def)

lemma Atoi_1: "Atoi ''1'' = Some 1"
  by (simp add: Atoi_def isDigit_def digitVal_def)

lemma Atoi_256: "Atoi ''256'' = Some 256"
  by (simp add: Atoi_def isDigit_def digitVal_def)

lemma Atoi_2_32: "Atoi ''4294967296'' = Some 4294967296"
  by (simp add: Atoi_def isDigit_def digitVal_def)

lemma Atoi_2_32_1: "Atoi ''4294967297'' = Some 4294967297"
  by (simp add: Atoi_def isDigit_def digitVal_def)

text \<open>
  Claim C3. The claim: the block-emission loop ends for every accepted record, also for a
  range whose last address is 255.255.255.255. The code: for the accepted record with
  start 255.255.255.255 and count 1 the end is the largest 32-bit value, the guard
  \<open>cur <= endU\<close> holds for every \<open>cur\<close>, the addition wraps around, and the function
  never returns.
\<close>

theorem last_address_never_returns:
  "ipv4RangeToCIDRs lib ''255.255.255.255'' ''1'' cc = None"
  by (simp add: ipv4RangeToCIDRs_def ParseIP_broadcast To4_mapped Atoi_1 ipToUint32_broadcast
      ipv4_loop_never_returns)

text \<open>
  Claim C2, amended. For a record whose start parses as IPv4 and whose count \<open>c\<close> is
  positive, with the range ending below 255.255.255.255 (start + c < 2^32), the function
  returns, and the blocks it emits cover exactly the addresses start to start + c - 1,
  no two of them overlap, and each starts at a multiple of its size.
\<close>

theorem ipv4_blocks_cover_range:
  assumes "ParseIP lib start = Some ip" and "To4 ip = Some ip4" and "Atoi val = Some c"
    and "0 < c" and "uint (ipToUint32 ip4) + c < 2 ^ 32"
  shows "\<exists>blocks.
           ipv4RangeToCIDRs lib start val cc = Some (map (block_record cc) blocks) \<and>
           (\<Union>b\<in>set blocks. block_addrs b) = {uint (ipToUint32 ip4) ..< uint (ipToUint32 ip4) + c} \<and>
           non_overlapping blocks \<and> list_all aligned blocks"
proof -
  let ?s = "ipToUint32 ip4"
  let ?blocks = "map (\<lambda>a. (a, 32)) (addrs_from ?s (nat c))"
  from assms have b: "uint ?s + int (nat c) < 2 ^ 32" by simp
  have "ipv4RangeToCIDRs lib start val cc = Some (map (block_record cc) ?blocks)"
    using assms by (rule ipv4RangeToCIDRs_blocks)
  moreover have "(\<Union>b\<in>set ?blocks. block_addrs b) = {uint ?s ..< uint ?s + c}"
    using addrs_union [OF b] assms(4) by simp
  moreover have "non_overlapping ?blocks"
    using b by (rule addrs_non_overlapping)
  moreover have "list_all aligned ?blocks"
    by (rule addrs_aligned)
  ultimately show ?thesis by blast
qed

text \<open>The theorem at start 1.0.0.0 and count 256.\<close>

theorem ipv4_blocks_cover_range_witness:
  "ParseIP ascii_lib ''1.0.0.0'' = Some [0, 0, 0, 0, 0, 0, 0, 0, 0, 0, 0xFF, 0xFF, 1, 0, 0, 0] \<and>
   To4 [0, 0, 0, 0, 0, 0, 0, 0, 0, 0, 0xFF, 0xFF, 1, 0, 0, 0] = Some [1, 0, 0, 0] \<and>
   Atoi ''256'' = Some 256 \<and> (0 :: int) < 256 \<and>
   uint (ipToUint32 [1, 0, 0, 0]) + 256 < 2 ^ 32 \<and>
   (\<exists>blocks.
      ipv4RangeToCIDRs ascii_lib ''1.0.0.0'' ''256'' ''AU'' = Some (map (block_record ''AU'') blocks) \<and>
      (\<Union>b\<in>set blocks. block_addrs b) = {16777216 ..< 16777472} \<and>
      non_overlapping blocks \<and> list_all aligned blocks)"
proof -
  have b: "uint (ipToUint32 [1, 0, 0, 0]) + 256 < 2 ^ 32"
    by (simp add: ipToUint32_1_0_0_0)
  have p: "(0 :: int) < 256" by simp
  show ?thesis
    using ipv4_blocks_cover_range [OF ParseIP_1_0_0_0 To4_mapped Atoi_256 p b, where cc = "''AU''"] b
    by (simp add: ParseIP_1_0_0_0 To4_mapped Atoi_256 ipToUint32_1_0_0_0)
qed

text \<open>
  Claim C2 as stated fails: start 1.0.0.0 parses as IPv4 and the count 4294967296 is a
  positive integer, yet no block is emitted, so the blocks do not cover the interval.
\<close>

theorem count_beyond_address_space_counterexample:
  "ParseIP ascii_lib ''1.0.0.0'' = Some [0, 0, 0, 0, 0, 0, 0, 0, 0, 0, 0xFF, 0xFF, 1, 0, 0, 0] \<and>
   To4 [0, 0, 0, 0, 0, 0, 0, 0, 0, 0, 0xFF, 0xFF, 1, 0, 0, 0] = Some [1, 0, 0, 0] \<and>
   Atoi ''4294967296'' = Some 4294967296 \<and>
   ipv4RangeToCIDRs ascii_lib ''1.0.0.0'' ''4294967296'' ''AU'' = Some [] \<and>
   \<not> (\<exists>blocks.
        ipv4RangeToCIDRs ascii_lib ''1.0.0.0'' ''4294967296'' ''AU'' =
          Some (map (block_record ''AU'') blocks) \<and>
        (\<Union>b\<in>set blocks. block_addrs b) =
          {uint (ipToUint32 [1, 0, 0, 0]) ..< uint (ipToUint32 [1, 0, 0, 0]) + 4294967296})"
proof -
  have "ipv4RangeToCIDRs ascii_lib ''1.0.0.0'' ''4294967296'' ''AU'' = Some []"
    by (simp add: ipv4RangeToCIDRs_def ParseIP_1_0_0_0 To4_mapped Atoi_2_32 ipToUint32_1_0_0_0
        ipv4_loop_exit)
  then show ?thesis
    by (simp add: ParseIP_1_0_0_0 To4_mapped Atoi_2_32 ipToUint32_1_0_0_0)
qed

lemma ipv4RangeToCIDRs_valid:
  assumes "ParseIP lib start = Some ip" and "To4 ip = Some ip4" and "Atoi val = Some c" and "0 < c"
  shows "ipv4RangeToCIDRs lib start val cc =
           ipv4_loop (ipToUint32 ip4) (ipToUint32 ip4 + word_of_int c - 1) cc []"
  using assms by (simp add: ipv4RangeToCIDRs_def Let_def)

lemma count_congruent:
  assumes "Atoi v1 = Some c1" and "0 < c1" and "Atoi v2 = Some c2" and "0 < c2"
    and "c1 mod 2 ^ 32 = c2 mod 2 ^ 32"
  shows "ipv4RangeToCIDRs lib start v1 cc = ipv4RangeToCIDRs lib start v2 cc"
proof -
  have "uint (word_of_int c1 :: 32 word) = uint (word_of_int c2 :: 32 word)"
    using assms(5) by (simp add: uint_word_of_int)
  then have "(word_of_int c1 :: 32 word) = word_of_int c2"
    by (rule word_uint_eqI)
  with assms show ?thesis
    by (simp add: ipv4RangeToCIDRs_def split: option.split)
qed

lemma word_of_int_mod: "(word_of_int c :: 32 word) = of_nat (nat (c mod 2 ^ 32))"
proof -
  define k where "k = c mod 2 ^ 32"
  have k: "0 \<le> k" by (simp add: k_def)
  have "take_bit 32 c = take_bit 32 k"
    by (simp add: k_def take_bit_eq_mod)
  then have "(word_of_int c :: 32 word) = word_of_int k"
    by (simp add: word_of_int_eq_iff)
  also have "\<dots> = of_nat (nat k)"
    using k by (simp only: of_nat_nat)
  finally show ?thesis by (simp only: k_def)
qed

lemma loop_in_range:
  assumes "0 < m" and "uint s + int m < 2 ^ 32"
  shows "ipv4_loop s (s + of_nat m - 1) cc [] =
           Some (map (\<lambda>a. block_record cc (a, 32)) (addrs_from s m))"
proof -
  let ?e = "s + of_nat m - 1"
  have "(of_nat m :: 32 word) - 1 = of_nat (m - 1)"
    using assms(1) by (simp add: of_nat_diff)
  then have e1: "?e = s + of_nat (m - 1)"
    by (simp add: add_diff_eq)
  have e2: "uint (s + of_nat (m - 1)) = uint s + int (m - 1)"
    using assms by (intro uint_plus_of_nat) simp
  have e3: "int (m - 1) = int m - 1"
    using assms(1) by simp
  have ue: "uint ?e = uint s + int m - 1"
    unfolding e1 e2 e3 by simp
  have mx: "uint (- 1 :: 32 word) = 4294967295"
    by (simp add: unsigned_minus_1_eq_mask mask_eq_exp_minus_1)
  have "uint ?e \<noteq> uint (- 1 :: 32 word)" unfolding ue mx using assms by simp
  then have ne: "?e \<noteq> - 1" by auto
  have "int (unat ?e) = int (unat s) + int m - 1" using ue by simp
  then have n: "m = Suc (unat ?e) - unat s" using assms by linarith
  show ?thesis
    using ipv4_loop_returns [OF ne n, of cc "[]"] by simp
qed

lemma loop_to_last_address:
  assumes "uint s + int m = 2 ^ 32"
  shows "ipv4_loop s (s + of_nat m - 1) cc out = None"
proof -
  have "s + of_nat m = (word_of_int (uint s + int m) :: 32 word)"
    by simp
  also have "\<dots> = 0"
    unfolding assms by simp
  finally have "s + of_nat m - 1 = - 1" by simp
  then show ?thesis by (simp only: ipv4_loop_never_returns)
qed

lemma loop_wrapped:
  assumes "int m < 2 ^ 32" and "2 ^ 32 < uint s + int m"
  shows "ipv4_loop s (s + of_nat m - 1) cc out = Some out"
proof -
  let ?e = "s + of_nat m - 1"
  let ?k = "uint s + int m - 1 - 2 ^ 32"
  have "?e = (word_of_int (uint s + int m - 1) :: 32 word)"
    by simp
  then have "uint ?e = (uint s + int m - 1) mod 2 ^ 32"
    by (simp only: uint_word_of_int) simp
  also have "\<dots> = (?k + 2 ^ 32) mod 2 ^ 32"
    by simp
  also have "\<dots> = ?k mod 2 ^ 32"
    by (rule mod_add_self2)
  also have "\<dots> = ?k"
  proof (rule mod_pos_pos_trivial)
    show "0 \<le> ?k" using assms(2) by simp
    have "uint s < 2 ^ 32" using uint_lt2p [of s] by simp
    with assms(1) show "?k < 2 ^ 32" by simp
  qed
  finally have "uint ?e < uint s" using assms(1) by simp
  then have "\<not> s \<le> ?e" by (simp add: word_le_def)
  then show ?thesis by (rule ipv4_loop_exit)
qed

lemma loop_zero_count:
  "s \<noteq> 0 \<Longrightarrow> ipv4_loop s (s + of_nat 0 - 1) cc out = Some out"
  "ipv4_loop 0 (0 + of_nat 0 - 1) cc out = None"
proof -
  assume ne: "s \<noteq> 0"
  then have "0 < unat s" by (simp add: unat_gt_0)
  with ne have "s - 1 < s" by (simp add: word_less_nat_alt unat_minus_one)
  then have "\<not> s \<le> s - 1" by simp
  then show "ipv4_loop s (s + of_nat 0 - 1) cc out = Some out"
    by (simp add: ipv4_loop_exit)
next
  show "ipv4_loop 0 (0 + of_nat 0 - 1) cc out = None"
    by (simp add: ipv4_loop_never_returns)
qed

lemma ipv4RangeToCIDRs_mod:
  assumes "ParseIP lib start = Some ip" and "To4 ip = Some ip4" and "Atoi val = Some c" and "0 < c"
  shows "ipv4RangeToCIDRs lib start val cc =
           ipv4_loop (ipToUint32 ip4) (ipToUint32 ip4 + of_nat (nat (c mod 2 ^ 32)) - 1) cc []"
  unfolding ipv4RangeToCIDRs_valid [OF assms] word_of_int_mod [of c] ..

text \<open>
  Claim C10. For a record whose start parses as IPv4 and whose count \<open>c\<close> is a positive
  integer, the aggregator works with \<open>m = c mod 2^32\<close>, and the start and \<open>m\<close> fix the
  result. When the \<open>m\<close> addresses from the start on end below the last address, exactly
  these \<open>m\<close> addresses are emitted; when they end at the last address the function never
  returns; when they run past it nothing is emitted. When \<open>m = 0\<close> the end precedes the
  start and nothing is emitted, except for the start 0.0.0.0, where the function never
  returns. So two positive counts that agree modulo 2^32 give the same result; the count
  2^32 + 1 gives what the count 1 gives, the single address of the start (where the
  start is not the last address); and the count 2^32 with a start other than 0.0.0.0
  gives nothing.
\<close>

theorem ipv4_count_modulo_2_32:
  assumes "ParseIP lib start = Some ip" and "To4 ip = Some ip4"
    and "Atoi val = Some c" and "0 < c"
  shows "(0 < c mod 2 ^ 32 \<and> uint (ipToUint32 ip4) + c mod 2 ^ 32 < 2 ^ 32 \<longrightarrow>
            ipv4RangeToCIDRs lib start val cc =
              Some (map (\<lambda>a. block_record cc (a, 32))
                      (addrs_from (ipToUint32 ip4) (nat (c mod 2 ^ 32))))) \<and>
         (0 < c mod 2 ^ 32 \<and> uint (ipToUint32 ip4) + c mod 2 ^ 32 = 2 ^ 32 \<longrightarrow>
            ipv4RangeToCIDRs lib start val cc = None) \<and>
         (2 ^ 32 < uint (ipToUint32 ip4) + c mod 2 ^ 32 \<longrightarrow>
            ipv4RangeToCIDRs lib start val cc = Some []) \<and>
         (c mod 2 ^ 32 = 0 \<and> ipToUint32 ip4 \<noteq> 0 \<longrightarrow>
            ipv4RangeToCIDRs lib start val cc = Some []) \<and>
         (c mod 2 ^ 32 = 0 \<and> ipToUint32 ip4 = 0 \<longrightarrow>
            ipv4RangeToCIDRs lib start val cc = None) \<and>
         (Atoi v2 = Some c2 \<and> 0 < c2 \<and> c2 mod 2 ^ 32 = c mod 2 ^ 32 \<longrightarrow>
            ipv4RangeToCIDRs lib start v2 cc = ipv4RangeToCIDRs lib start val cc) \<and>
         ipv4RangeToCIDRs lib start ''4294967297'' cc = ipv4RangeToCIDRs lib start ''1'' cc \<and>
         (ipToUint32 ip4 \<noteq> - 1 \<longrightarrow>
            ipv4RangeToCIDRs lib start ''4294967297'' cc = Some [block_record cc (ipToUint32 ip4, 32)]) \<and>
         (ipToUint32 ip4 \<noteq> 0 \<longrightarrow>
            ipToUint32 ip4 + word_of_int 4294967296 - 1 < ipToUint32 ip4 \<and>
            ipv4RangeToCIDRs lib start ''4294967296'' cc = Some [])"
proof -
  let ?s = "ipToUint32 ip4"
  let ?m = "nat (c mod 2 ^ 32)"
  have m: "int ?m = c mod 2 ^ 32" by simp
  have mlt: "int ?m < 2 ^ 32" by simp
  note run = ipv4RangeToCIDRs_mod [OF assms, of cc]
  have c1: "ipv4RangeToCIDRs lib start val cc =
      Some (map (\<lambda>a. block_record cc (a, 32)) (addrs_from ?s ?m))"
    if "0 < c mod 2 ^ 32" and "uint ?s + c mod 2 ^ 32 < 2 ^ 32"
    unfolding run using that by (intro loop_in_range) simp_all
  have c2: "ipv4RangeToCIDRs lib start val cc = None"
    if "uint ?s + c mod 2 ^ 32 = 2 ^ 32"
    unfolding run using that by (intro loop_to_last_address) simp
  have c3: "ipv4RangeToCIDRs lib start val cc = Some []"
    if "2 ^ 32 < uint ?s + c mod 2 ^ 32"
    unfolding run using that mlt by (intro loop_wrapped) simp_all
  have c4: "ipv4RangeToCIDRs lib start val cc = Some []"
    if "c mod 2 ^ 32 = 0" and "?s \<noteq> 0"
    unfolding run using that by (simp add: loop_zero_count(1) [simplified])
  have c5: "ipv4RangeToCIDRs lib start val cc = None"
    if "c mod 2 ^ 32 = 0" and "?s = 0"
    unfolding run using that by (simp add: ipv4_loop_never_returns)
  have c6: "ipv4RangeToCIDRs lib start v2 cc = ipv4RangeToCIDRs lib start val cc"
    if "Atoi v2 = Some c2" and "0 < c2" and "c2 mod 2 ^ 32 = c mod 2 ^ 32"
    using that assms(3,4) by (intro count_congruent [of v2 c2 val c]) simp_all
  have one: "ipv4RangeToCIDRs lib start ''4294967297'' cc = ipv4RangeToCIDRs lib start ''1'' cc"
    by (rule count_congruent [OF Atoi_2_32_1 _ Atoi_1]) simp_all
  have e1: "?s + word_of_int 1 - 1 = ?s"
    by simp
  have single: "ipv4RangeToCIDRs lib start ''1'' cc = Some [block_record cc (?s, 32)]" if ne: "?s \<noteq> - 1"
  proof -
    have "ipv4_loop ?s ?s cc [] = Some [block_record cc (?s, 32)]"
      using ipv4_loop_returns [OF ne, of "Suc 0" ?s cc "[]"] by (simp add: addrs_from_def)
    then show ?thesis
      unfolding ipv4RangeToCIDRs_valid [OF assms(1,2) Atoi_1 zero_less_one] e1 .
  qed
  have e0: "?s + word_of_int 4294967296 - 1 = ?s - 1"
    by simp
  have lt: "?s - 1 < ?s" if "?s \<noteq> 0"
  proof -
    from that have "0 < unat ?s" by (simp add: unat_gt_0)
    with that show ?thesis by (simp add: word_less_nat_alt unat_minus_one)
  qed
  have p: "(0 :: int) < 4294967296" by simp
  have none: "ipv4RangeToCIDRs lib start ''4294967296'' cc = Some []" if "?s \<noteq> 0"
  proof -
    from lt [OF that] have "\<not> ?s \<le> ?s - 1" by simp
    then have "ipv4_loop ?s (?s - 1) cc [] = Some []" by (rule ipv4_loop_exit)
    then show ?thesis
      unfolding ipv4RangeToCIDRs_valid [OF assms(1,2) Atoi_2_32 p] e0 .
  qed
  show ?thesis
    unfolding e0 using c1 c2 c3 c4 c5 c6 one single lt none
    by (intro conjI impI) (blast | simp)+
qed

lemma Atoi_2: "Atoi ''2'' = Some 2"
  by (simp add: Atoi_def isDigit_def digitVal_def)

lemma Atoi_2_32_256: "Atoi ''4294967552'' = Some 4294967552"
  by (simp add: Atoi_def isDigit_def digitVal_def)

text \<open>
  The theorem at start 1.0.0.0 with the counts 2^32 + 256, 2^32 + 1 and 2^32, and at
  start 255.255.255.255 with the count 2.
\<close>

theorem ipv4_count_modulo_2_32_witness:
  "ParseIP ascii_lib ''1.0.0.0'' = Some [0, 0, 0, 0, 0, 0, 0, 0, 0, 0, 0xFF, 0xFF, 1, 0, 0, 0] \<and>
   To4 [0, 0, 0, 0, 0, 0, 0, 0, 0, 0, 0xFF, 0xFF, 1, 0, 0, 0] = Some [1, 0, 0, 0] \<and>
   Atoi ''4294967552'' = Some 4294967552 \<and> (0 :: int) < 4294967552 \<and>
   (4294967552 :: int) mod 2 ^ 32 = 256 \<and>
   uint (ipToUint32 [1, 0, 0, 0]) + 256 < 2 ^ 32 \<and>
   Atoi ''256'' = Some 256 \<and>
   ipv4RangeToCIDRs ascii_lib ''1.0.0.0'' ''4294967552'' ''AU'' =
     Some (map (\<lambda>a. block_record ''AU'' (a, 32)) (addrs_from 0x01000000 256)) \<and>
   ipv4RangeToCIDRs ascii_lib ''1.0.0.0'' ''256'' ''AU'' =
     ipv4RangeToCIDRs ascii_lib ''1.0.0.0'' ''4294967552'' ''AU'' \<and>
   ipv4RangeToCIDRs ascii_lib ''1.0.0.0'' ''4294967297'' ''AU'' =
     Some [\<lparr>Prefix = ''1.0.0.0/32'', Country = ''AU''\<rparr>] \<and>
   ipv4RangeToCIDRs ascii_lib ''1.0.0.0'' ''4294967296'' ''AU'' = Some [] \<and>
   ParseIP ascii_lib ''255.255.255.255'' =
     Some [0, 0, 0, 0, 0, 0, 0, 0, 0, 0, 0xFF, 0xFF, 255, 255, 255, 255] \<and>
   Atoi ''2'' = Some 2 \<and> 2 ^ 32 < uint (ipToUint32 [255, 255, 255, 255]) + 2 mod 2 ^ 32 \<and>
   ipv4RangeToCIDRs ascii_lib ''255.255.255.255'' ''2'' ''AU'' = Some []"
proof -
  have p: "(0 :: int) < 4294967552" "(0 :: int) < 2" by simp_all
  have m: "(4294967552 :: int) mod 2 ^ 32 = 256" by simp
  have b: "uint (ipToUint32 [1, 0, 0, 0]) + 256 < 2 ^ 32"
    by (simp add: ipToUint32_1_0_0_0)
  have w: "2 ^ 32 < uint (ipToUint32 [255, 255, 255, 255]) + 2 mod 2 ^ 32"
    by (simp add: ipToUint32_broadcast unsigned_minus_1_eq_mask mask_eq_exp_minus_1)
  note a = ipv4_count_modulo_2_32 [OF ParseIP_1_0_0_0 To4_mapped Atoi_2_32_256 p(1),
      where lib = ascii_lib and cc = "''AU''" and ?v2.0 = "''256''" and ?c2.0 = 256]
  note z = ipv4_count_modulo_2_32 [OF ParseIP_broadcast To4_mapped Atoi_2 p(2),
      where lib = ascii_lib and cc = "''AU''"]
  have ne: "ipToUint32 [1, 0, 0, 0] \<noteq> - 1" "ipToUint32 [1, 0, 0, 0] \<noteq> 0"
    by (simp_all add: ipToUint32_1_0_0_0)
  have pm: "(0 :: int) < 4294967552 mod 2 ^ 32"
    and bm: "uint (ipToUint32 [1, 0, 0, 0]) + 4294967552 mod 2 ^ 32 < 2 ^ 32"
    using b by (simp_all add: m)
  from a pm bm have "ipv4RangeToCIDRs ascii_lib ''1.0.0.0'' ''4294967552'' ''AU'' =
     Some (map (\<lambda>a. block_record ''AU'' (a, 32))
        (addrs_from (ipToUint32 [1, 0, 0, 0]) (nat (4294967552 mod 2 ^ 32))))"
    by blast
  then have r1: "ipv4RangeToCIDRs ascii_lib ''1.0.0.0'' ''4294967552'' ''AU'' =
     Some (map (\<lambda>a. block_record ''AU'' (a, 32)) (addrs_from 0x01000000 256))"
    by (simp add: ipToUint32_1_0_0_0)
  have "(256 :: int) mod 2 ^ 32 = 4294967552 mod 2 ^ 32" by simp
  with a Atoi_256 have r2: "ipv4RangeToCIDRs ascii_lib ''1.0.0.0'' ''256'' ''AU'' =
     ipv4RangeToCIDRs ascii_lib ''1.0.0.0'' ''4294967552'' ''AU''"
    by (metis zero_less_numeral)
  from a ne(1) have "ipv4RangeToCIDRs ascii_lib ''1.0.0.0'' ''4294967297'' ''AU'' =
     Some [block_record ''AU'' (ipToUint32 [1, 0, 0, 0], 32)]"
    by blast
  then have r3: "ipv4RangeToCIDRs ascii_lib ''1.0.0.0'' ''4294967297'' ''AU'' =
     Some [\<lparr>Prefix = ''1.0.0.0/32'', Country = ''AU''\<rparr>]"
    by (simp add: ipToUint32_1_0_0_0 block_record_def uint32ToIP_def byte_def
        fmt_d.simps digitChar_def)
  from a ne(2) have r4: "ipv4RangeToCIDRs ascii_lib ''1.0.0.0'' ''4294967296'' ''AU'' = Some []"
    by blast
  have r5: "ipv4RangeToCIDRs ascii_lib ''255.255.255.255'' ''2'' ''AU'' = Some []"
    using z w by blast
  from p m b w r1 r2 r3 r4 r5 show ?thesis
    by (simp only: ParseIP_1_0_0_0 To4_mapped Atoi_2_32_256 Atoi_256 Atoi_2 ParseIP_broadcast
        simp_thms)
qed

lemma Scanner_example:
  "Scanner ''arin|AU|ipv4|1.0.0.0|256|20110811|allocated|...'' =
     ([''arin|AU|ipv4|1.0.0.0|256|20110811|allocated|...''], None)"
  by (simp add: Scanner.simps maxTokenSize_def dropCR_def)

lemma process_line_example:
  "process_line lib ''arin|AU|ipv4|1.0.0.0|256|20110811|allocated|...'' =
     ipv4RangeToCIDRs lib ''1.0.0.0'' ''256'' ''AU''"
  by (simp add: process_line_def HasPrefix_def ToUpper_def upperChar_def isCountryCode_def)

lemma ipv4RangeToCIDRs_example:
  "ipv4RangeToCIDRs lib ''1.0.0.0'' ''256'' ''AU'' =
     Some (map (\<lambda>a. block_record ''AU'' (a, 32)) (addrs_from 0x01000000 256))"
proof -
  have b: "uint (ipToUint32 [1, 0, 0, 0]) + 256 < 2 ^ 32"
    by (simp add: ipToUint32_1_0_0_0)
  have p: "(0 :: int) < 256" by simp
  show ?thesis
    using ipv4RangeToCIDRs_blocks [OF ParseIP_1_0_0_0 To4_mapped Atoi_256 p b, where cc = "''AU''"]
    by (simp add: ipToUint32_1_0_0_0 o_def)
qed

text \<open>
  Claim C1. The claim: the blocks emitted are the minimal decomposition, and the line
  \<open>arin|AU|ipv4|1.0.0.0|256|20110811|allocated|...\<close> yields the single record
  1.0.0.0/24, AU. The code: the search for the prefix length stops at 32 at once, so the
  line yields 256 records, one of prefix length 32 for each address; the first two,
  1.0.0.0/32 and 1.0.0.1/32, are adjacent blocks that can be merged into 1.0.0.0/31.
\<close>

theorem example_line_yields_host_blocks:
  "\<exists>recs.
     ParseDelegatedExtended lib ''arin|AU|ipv4|1.0.0.0|256|20110811|allocated|...'' = Some (recs, None) \<and>
     length recs = 256 \<and>
     take 2 recs = [block_record ''AU'' (0x01000000, 32), block_record ''AU'' (0x01000001, 32)] \<and>
     mergeable (0x01000000, 32) (0x01000001, 32) \<and>
     take 2 recs = [\<lparr>Prefix = ''1.0.0.0/32'', Country = ''AU''\<rparr>,
                    \<lparr>Prefix = ''1.0.0.1/32'', Country = ''AU''\<rparr>] \<and>
     recs \<noteq> [\<lparr>Prefix = ''1.0.0.0/24'', Country = ''AU''\<rparr>]"
proof -
  define recs where "recs = map (\<lambda>a. block_record ''AU'' (a, 32)) (addrs_from 0x01000000 256)"
  have run: "ParseDelegatedExtended lib ''arin|AU|ipv4|1.0.0.0|256|20110811|allocated|...'' = Some (recs, None)"
    by (simp add: ParseDelegatedExtended_def Scanner_example process_line_example
        ipv4RangeToCIDRs_example recs_def)
  have len: "length recs = 256"
    by (simp add: recs_def addrs_from_def)
  have n: "(256 :: nat) = Suc (Suc 254)" by simp
  have "addrs_from (0x01000000 :: 32 word) 256 = 0x01000000 # 0x01000001 # addrs_from 0x01000002 254"
    unfolding n addrs_from_Suc by simp
  then have blocks: "take 2 recs = [block_record ''AU'' (0x01000000, 32), block_record ''AU'' (0x01000001, 32)]"
    by (simp add: recs_def)
  then have two: "take 2 recs = [\<lparr>Prefix = ''1.0.0.0/32'', Country = ''AU''\<rparr>,
                    \<lparr>Prefix = ''1.0.0.1/32'', Country = ''AU''\<rparr>]"
    by (simp add: block_record_def uint32ToIP_def byte_def fmt_d.simps digitChar_def)
  have m: "mergeable (0x01000000, 32) (0x01000001, 32)"
    by (simp add: mergeable_def)
  have "recs \<noteq> [r]" for r
  proof
    assume "recs = [r]"
    then have "length recs = 1" by simp
    with len show False by simp
  qed
  with run len blocks two m show ?thesis by blast
qed

section \<open>The merge step\<close>

lemma conflict_free_iff:
  "conflict_free rs \<longleftrightarrow> (\<forall>r\<in>set rs. \<forall>r'\<in>set rs. Prefix r = Prefix r' \<longrightarrow> Country r = Country r')"
  by (simp add: conflict_free_def list_all_iff)

lemma conflict_free_appendD: "conflict_free (xs @ ys) \<Longrightarrow> conflict_free xs"
  by (simp add: conflict_free_iff)

lemma merge_inv_empty: "merge_inv Map.empty [] []"
  by (simp add: merge_inv_def)

lemma find_append:
  "find P (xs @ ys) = (case find P xs of None \<Rightarrow> find P ys | Some x \<Rightarrow> Some x)"
  by (induction xs) auto

lemma merge_inv_new:
  assumes inv: "merge_inv seen out pre" and new: "seen (Prefix r) = None"
  shows "merge_inv (seen(Prefix r \<mapsto> Country r)) (out @ [r]) (pre @ [r])"
proof -
  from inv have d: "dom seen = Prefix ` set pre"
    and c: "\<And>x. x \<in> set pre \<Longrightarrow> seen (Prefix x) = Some (Country x)"
    and dist: "distinct (map Prefix out)"
    and img: "Prefix ` set out = Prefix ` set pre"
    and fst: "\<And>x. x \<in> set out \<Longrightarrow> find (\<lambda>y. Prefix y = Prefix x) pre = Some x"
    unfolding merge_inv_def by blast+
  from new have "Prefix r \<notin> dom seen" by (simp add: domIff)
  with d have notin: "Prefix r \<notin> Prefix ` set pre" by simp
  then have ne: "Prefix x \<noteq> Prefix r" if "x \<in> set pre" for x
    using that by (metis imageI)
  then have none: "find (\<lambda>x. Prefix x = Prefix r) pre = None"
    unfolding find_None_iff by blast
  have "dom (seen(Prefix r \<mapsto> Country r)) = Prefix ` set (pre @ [r])"
    using d by simp
  moreover have "\<forall>x\<in>set (pre @ [r]). (seen(Prefix r \<mapsto> Country r)) (Prefix x) = Some (Country x)"
    using c ne by simp
  moreover have "distinct (map Prefix (out @ [r]))"
    using dist notin img by simp
  moreover have "Prefix ` set (out @ [r]) = Prefix ` set (pre @ [r])"
    using img by simp
  moreover have "\<forall>x\<in>set (out @ [r]). find (\<lambda>y. Prefix y = Prefix x) (pre @ [r]) = Some x"
    using fst none by (simp add: find_append)
  ultimately show ?thesis
    unfolding merge_inv_def by blast
qed

lemma merge_inv_known:
  assumes inv: "merge_inv seen out pre" and known: "seen (Prefix r) = Some (Country r)"
  shows "merge_inv seen out (pre @ [r])"
proof -
  from inv have d: "dom seen = Prefix ` set pre"
    and c: "\<And>x. x \<in> set pre \<Longrightarrow> seen (Prefix x) = Some (Country x)"
    and dist: "distinct (map Prefix out)"
    and img: "Prefix ` set out = Prefix ` set pre"
    and fst: "\<And>x. x \<in> set out \<Longrightarrow> find (\<lambda>y. Prefix y = Prefix x) pre = Some x"
    unfolding merge_inv_def by blast+
  from known have "Prefix r \<in> dom seen" by (simp add: domI)
  with d have mem: "Prefix r \<in> Prefix ` set pre" by simp
  have "dom seen = Prefix ` set (pre @ [r])"
    using d mem by auto
  moreover have "\<forall>x\<in>set (pre @ [r]). seen (Prefix x) = Some (Country x)"
    using c known by simp
  moreover have "Prefix ` set out = Prefix ` set (pre @ [r])"
    using img mem by auto
  moreover have "\<forall>x\<in>set out. find (\<lambda>y. Prefix y = Prefix x) (pre @ [r]) = Some x"
    using fst by (simp add: find_append)
  ultimately show ?thesis
    using dist unfolding merge_inv_def by blast
qed

lemma merge_inv_lookup:
  assumes inv: "merge_inv seen out pre" and cf: "conflict_free (pre @ [r])"
    and some: "seen (Prefix r) = Some prev"
  shows "prev = Country r"
proof -
  from some have "Prefix r \<in> dom seen" by (simp add: domI)
  with inv have "Prefix r \<in> Prefix ` set pre" by (simp add: merge_inv_def)
  then obtain r0 where r0: "r0 \<in> set pre" and p: "Prefix r = Prefix r0"
    by (rule imageE)
  have "seen (Prefix r0) = Some (Country r0)"
    using inv r0 unfolding merge_inv_def by blast
  with some p have prev: "prev = Country r0" by simp
  have "r0 \<in> set (pre @ [r])" and "r \<in> set (pre @ [r])"
    using r0 by simp_all
  with cf p have "Country r0 = Country r"
    unfolding conflict_free_iff by metis
  with prev show ?thesis by simp
qed

lemma merge_loop_conflict_free:
  assumes "merge_inv seen out pre" and "conflict_free (pre @ rs)"
  shows "\<exists>seen' out'. merge_inv seen' out' (pre @ rs) \<and>
           (\<forall>rest. merge_loop seen out (rs @ rest) = merge_loop seen' out' rest)"
  using assms
proof (induction rs arbitrary: seen out pre)
  case Nil
  then show ?case by auto
next
  case (Cons r rs)
  from Cons.prems(2) have cf: "conflict_free ((pre @ [r]) @ rs)" by simp
  then have cf1: "conflict_free (pre @ [r])" by (rule conflict_free_appendD)
  show ?case
  proof (cases "seen (Prefix r)")
    case None
    with Cons.prems(1) have "merge_inv (seen(Prefix r \<mapsto> Country r)) (out @ [r]) (pre @ [r])"
      by (rule merge_inv_new)
    from Cons.IH [OF this cf] obtain seen' out' where inv': "merge_inv seen' out' ((pre @ [r]) @ rs)"
      and run: "\<And>rest. merge_loop (seen(Prefix r \<mapsto> Country r)) (out @ [r]) (rs @ rest) =
                  merge_loop seen' out' rest"
      by blast
    have "merge_loop seen out ((r # rs) @ rest) = merge_loop seen' out' rest" for rest
      using None run [of rest] by simp
    with inv' show ?thesis by auto
  next
    case (Some prev)
    have prev: "prev = Country r" using Cons.prems(1) cf1 Some by (rule merge_inv_lookup)
    with Some Cons.prems(1) have "merge_inv seen out (pre @ [r])"
      by (intro merge_inv_known) simp_all
    from Cons.IH [OF this cf] obtain seen' out' where inv': "merge_inv seen' out' ((pre @ [r]) @ rs)"
      and run: "\<And>rest. merge_loop seen out (rs @ rest) = merge_loop seen' out' rest"
      by blast
    have "merge_loop seen out ((r # rs) @ rest) = merge_loop seen' out' rest" for rest
      using Some prev run [of rest] by simp
    with inv' show ?thesis by auto
  qed
qed

lemma merge_conflict_free:
  assumes "conflict_free all"
  shows "\<exists>seen out. merge all = Inr out \<and> merge_inv seen out all"
proof -
  from merge_loop_conflict_free [OF merge_inv_empty, of "all"] assms
  obtain seen' out' where "merge_inv seen' out' all"
    and "\<forall>rest. merge_loop Map.empty [] (all @ rest) = merge_loop seen' out' rest"
    by auto
  then have "merge_loop Map.empty [] (all @ []) = merge_loop seen' out' []" by blast
  with \<open>merge_inv seen' out' all\<close> show ?thesis
    by (auto simp: merge_def)
qed

text \<open>
  Claim C5. For a sequence of records without country conflicts the merge returns, and
  its output holds every prefix of the input exactly once, each with the first record of
  the input that carries it: a later record with the same prefix is dropped.
\<close>

theorem merge_keeps_first_occurrences:
  assumes "conflict_free all"
  shows "\<exists>out. merge all = Inr out \<and> distinct (map Prefix out) \<and>
           Prefix ` set out = Prefix ` set all \<and>
           (\<forall>r\<in>set out. find (\<lambda>x. Prefix x = Prefix r) all = Some r)"
  using merge_conflict_free [OF assms] by (auto simp: merge_inv_def)

text \<open>The theorem at two identical records (1.0.0.0/24, AU): one entry is left.\<close>

theorem merge_keeps_first_occurrences_witness:
  "conflict_free [\<lparr>Prefix = ''1.0.0.0/24'', Country = ''AU''\<rparr>, \<lparr>Prefix = ''1.0.0.0/24'', Country = ''AU''\<rparr>] \<and>
   merge [\<lparr>Prefix = ''1.0.0.0/24'', Country = ''AU''\<rparr>, \<lparr>Prefix = ''1.0.0.0/24'', Country = ''AU''\<rparr>] =
     Inr [\<lparr>Prefix = ''1.0.0.0/24'', Country = ''AU''\<rparr>] \<and>
   (\<exists>out. merge [\<lparr>Prefix = ''1.0.0.0/24'', Country = ''AU''\<rparr>, \<lparr>Prefix = ''1.0.0.0/24'', Country = ''AU''\<rparr>] = Inr out \<and>
      distinct (map Prefix out) \<and> length out = 1 \<and>
      Prefix ` set out = {''1.0.0.0/24''} \<and>
      list_all (\<lambda>r. find (\<lambda>x. Prefix x = Prefix r)
          [\<lparr>Prefix = ''1.0.0.0/24'', Country = ''AU''\<rparr>, \<lparr>Prefix = ''1.0.0.0/24'', Country = ''AU''\<rparr>] = Some r) out)"
proof -
  let ?r = "\<lparr>Prefix = ''1.0.0.0/24'', Country = ''AU''\<rparr>"
  have cf: "conflict_free [?r, ?r]" by (simp add: conflict_free_def)
  have m: "merge [?r, ?r] = Inr [?r]" by (simp add: merge_def)
  from merge_keeps_first_occurrences [OF cf] cf m show ?thesis
    by (simp add: list_all_iff)
qed

text \<open>
  Claim C4, amended. When a record arrives whose prefix is in the map with another
  country (the records before it being free of conflicts), the run fails fatally with
  the message \<open>country conflict for prefix\<close> followed by that prefix; the message names
  the prefix and no country.
\<close>

theorem merge_conflict_is_fatal:
  assumes "conflict_free pre" and "r0 \<in> set pre" and "Prefix r0 = Prefix r"
    and "Country r0 \<noteq> Country r"
  shows "merge (pre @ r # post) = Inl (''country conflict for prefix '' @ Prefix r)"
proof -
  from merge_loop_conflict_free [OF merge_inv_empty, of pre] assms(1)
  obtain seen' out' where inv: "merge_inv seen' out' pre"
    and run: "\<forall>rest. merge_loop Map.empty [] (pre @ rest) = merge_loop seen' out' rest"
    by auto
  from inv assms(2,3) have "seen' (Prefix r) = Some (Country r0)"
    by (auto simp: merge_inv_def)
  with assms(4) have "merge_loop seen' out' (r # post) = Inl (''country conflict for prefix '' @ Prefix r)"
    by simp
  with run show ?thesis by (simp add: merge_def)
qed

text \<open>The theorem at the records (1.0.0.0/24, AU) and (1.0.0.0/24, US).\<close>

theorem merge_conflict_is_fatal_witness:
  "conflict_free [\<lparr>Prefix = ''1.0.0.0/24'', Country = ''AU''\<rparr>] \<and>
   \<lparr>Prefix = ''1.0.0.0/24'', Country = ''AU''\<rparr> \<in> set [\<lparr>Prefix = ''1.0.0.0/24'', Country = ''AU''\<rparr>] \<and>
   Country \<lparr>Prefix = ''1.0.0.0/24'', Country = ''AU''\<rparr> \<noteq> Country \<lparr>Prefix = ''1.0.0.0/24'', Country = ''US''\<rparr> \<and>
   merge ([\<lparr>Prefix = ''1.0.0.0/24'', Country = ''AU''\<rparr>] @ \<lparr>Prefix = ''1.0.0.0/24'', Country = ''US''\<rparr> # []) =
     Inl ''country conflict for prefix 1.0.0.0/24''"
proof -
  let ?a = "\<lparr>Prefix = ''1.0.0.0/24'', Country = ''AU''\<rparr>"
  let ?u = "\<lparr>Prefix = ''1.0.0.0/24'', Country = ''US''\<rparr>"
  have cf: "conflict_free [?a]" by (simp add: conflict_free_def)
  have "merge ([?a] @ ?u # []) = Inl (''country conflict for prefix '' @ Prefix ?u)"
    by (rule merge_conflict_is_fatal [OF cf, of ?a]) simp_all
  with cf show ?thesis by simp
qed

text \<open>
  Claim C4 as stated fails: for the records (1.0.0.0/24, AU) and (1.0.0.0/24, US) the
  message of the fatal error names the prefix and neither of the two countries.
\<close>

theorem conflict_message_omits_countries_counterexample:
  "merge [\<lparr>Prefix = ''1.0.0.0/24'', Country = ''AU''\<rparr>, \<lparr>Prefix = ''1.0.0.0/24'', Country = ''US''\<rparr>] =
     Inl ''country conflict for prefix 1.0.0.0/24'' \<and>
   contains ''country conflict for prefix 1.0.0.0/24'' ''1.0.0.0/24'' \<and>
   \<not> contains ''country conflict for prefix 1.0.0.0/24'' ''AU'' \<and>
   \<not> contains ''country conflict for prefix 1.0.0.0/24'' ''US''"
  by (simp add: merge_def)

section \<open>The fetcher\<close>

lemma fetch_loop_transport:
  assumes "attempt \<le> maxRetries" and "transport_failure (server attempt)"
  shows "fetch_loop lib server name attempt lastErr tr =
           fetch_loop lib server name (Suc attempt) (attempt_error lib (server attempt))
             (tr @ [Request attempt, Sleep (attempt * 10)])"
  using assms
  by (subst fetch_loop.simps)
     (simp add: transport_failure_def attempt_error_def split: outcome.splits)

lemma fetch_loop_parse_failure:
  assumes "attempt \<le> maxRetries" and "parse_failure lib (server attempt)"
  shows "fetch_loop lib server name attempt lastErr tr =
           fetch_loop lib server name (Suc attempt) (attempt_error lib (server attempt))
             (tr @ [Request attempt])"
  using assms
  by (subst fetch_loop.simps)
     (auto simp add: parse_failure_def attempt_error_def split: outcome.splits option.splits prod.splits)

lemma fetch_loop_success:
  assumes "attempt \<le> maxRetries" and "server attempt = Downloaded body"
    and "ParseDelegatedExtended lib body = Some (recs, None)"
  shows "fetch_loop lib server name attempt lastErr tr = Some (Inr recs, tr @ [Request attempt])"
  using assms by (subst fetch_loop.simps) simp

lemma fetch_loop_exhausted:
  assumes "\<not> attempt \<le> maxRetries"
  shows "fetch_loop lib server name attempt lastErr tr =
           Some (Inl (''failed to fetch '' @ name @ '' after 5 attempts: '' @ errorText lastErr), tr)"
  using assms
  by (subst fetch_loop.simps) (simp add: maxRetries_def fmt_d.simps digitChar_def)

lemma transport_not_parse: "transport_failure x \<Longrightarrow> \<not> parse_failure lib x"
  by (simp add: transport_failure_def parse_failure_def split: outcome.splits)

lemma fetch_loop_failed:
  assumes "attempt \<le> maxRetries" and "attempt_failed lib (server attempt)"
  shows "fetch_loop lib server name attempt lastErr tr =
           fetch_loop lib server name (Suc attempt) (attempt_error lib (server attempt))
             (tr @ attempt_events server attempt)"
proof (cases "transport_failure (server attempt)")
  case True
  with assms(1) show ?thesis
    by (simp add: fetch_loop_transport attempt_events_def)
next
  case False
  with assms(2) have "parse_failure lib (server attempt)"
    by (simp add: attempt_failed_def)
  with assms(1) False show ?thesis
    by (simp add: fetch_loop_parse_failure attempt_events_def)
qed

lemma fetch_loop_failures:
  assumes "\<forall>i. a \<le> i \<and> i < a + n \<longrightarrow> attempt_failed lib (server i)"
    and "a + n \<le> Suc maxRetries"
  shows "fetch_loop lib server name a lastErr tr =
           fetch_loop lib server name (a + n)
             (if n = 0 then lastErr else attempt_error lib (server (a + n - 1)))
             (tr @ concat (map (attempt_events server) [a..<a + n]))"
  using assms
proof (induction n arbitrary: a lastErr tr)
  case 0
  then show ?case by simp
next
  case (Suc n)
  from Suc.prems have a: "a \<le> maxRetries" and f: "attempt_failed lib (server a)"
    by simp_all
  from Suc.prems have rest: "\<forall>i. Suc a \<le> i \<and> i < Suc a + n \<longrightarrow> attempt_failed lib (server i)"
    and bound: "Suc a + n \<le> Suc maxRetries"
    by simp_all
  have up: "[a..<a + Suc n] = a # [Suc a..<Suc a + n]"
    by (simp add: upt_conv_Cons del: upt_Suc)
  have "fetch_loop lib server name a lastErr tr =
          fetch_loop lib server name (Suc a) (attempt_error lib (server a))
            (tr @ attempt_events server a)"
    using a f by (rule fetch_loop_failed)
  also have "\<dots> = fetch_loop lib server name (Suc a + n)
             (if n = 0 then attempt_error lib (server a) else attempt_error lib (server (Suc a + n - 1)))
             ((tr @ attempt_events server a) @ concat (map (attempt_events server) [Suc a..<Suc a + n]))"
    using rest bound by (rule Suc.IH)
  finally show ?case
    unfolding up by (cases n) simp_all
qed

lemma fetch_loop_requests:
  assumes "n = Suc maxRetries - a" and "fetch_loop lib server name a lastErr tr = Some (res, tr')"
  shows "\<exists>m. m \<le> Suc maxRetries - a \<and>
           filter is_request tr' = filter is_request tr @ map Request [a..<a + m]"
  using assms
proof (induction n arbitrary: a lastErr tr)
  case 0
  then have "\<not> a \<le> maxRetries" by simp
  from fetch_loop_exhausted [OF this] "0.prems"(2) have "tr' = tr" by simp
  then show ?case by (intro exI [of _ 0]) simp
next
  case (Suc n)
  then have a: "a \<le> maxRetries" and n: "n = Suc maxRetries - Suc a" by simp_all
  have step: ?case
    if run: "fetch_loop lib server name (Suc a) e (tr @ evs) = Some (res, tr')"
      and evs: "filter is_request evs = [Request a]" for e evs
  proof -
    from Suc.IH [OF n run] obtain m where m: "m \<le> Suc maxRetries - Suc a"
      and f: "filter is_request tr' = filter is_request (tr @ evs) @ map Request [Suc a..<Suc a + m]"
      by blast
    have "[a..<a + Suc m] = a # [Suc a..<Suc a + m]"
      by (simp add: upt_conv_Cons del: upt_Suc)
    with f evs have "filter is_request tr' = filter is_request tr @ map Request [a..<a + Suc m]"
      by simp
    moreover from m a have "Suc m \<le> Suc maxRetries - a" by simp
    ultimately show ?thesis by blast
  qed
  show ?case
  proof (cases "transport_failure (server a)")
    case True
    from Suc.prems(2) show ?thesis
      unfolding fetch_loop_transport [where server = server and attempt = a, OF a True]
      by (rule step) (simp add: is_request_def)
  next
    case False
    then obtain body where body: "server a = Downloaded body"
      by (cases "server a") (simp_all add: transport_failure_def)
    show ?thesis
    proof (cases "ParseDelegatedExtended lib body")
      case None
      with a body Suc.prems(2) show ?thesis
        by (subst (asm) fetch_loop.simps) simp
    next
      case (Some p)
      obtain recs err where p: "p = (recs, err)" by (cases p)
      show ?thesis
      proof (cases err)
        case None
        with Some p have "ParseDelegatedExtended lib body = Some (recs, None)" by simp
        from fetch_loop_success [where server = server and attempt = a, OF a body this] Suc.prems(2)
        have "tr' = tr @ [Request a]" by simp
        then have "filter is_request tr' = filter is_request tr @ map Request [a..<a + 1]"
          by (simp add: is_request_def)
        moreover from a have "1 \<le> Suc maxRetries - a" by simp
        ultimately show ?thesis by blast
      next
        case (Some e)
        with \<open>ParseDelegatedExtended lib body = Some p\<close> p body
        have pf: "parse_failure lib (server a)" by (simp add: parse_failure_def)
        from Suc.prems(2) show ?thesis
          unfolding fetch_loop_parse_failure [where server = server and attempt = a, OF a pf]
          by (rule step) (simp add: is_request_def)
      qed
    qed
  qed
qed

lemma fetchWithRetry_at_most_5_requests:
  assumes "fetchWithRetry lib server name = Some (res, tr)"
  shows "length (filter is_request tr) \<le> 5"
proof -
  from fetch_loop_requests [OF refl, of lib server name 1 None "[]" res tr] assms
  obtain m where "m \<le> Suc maxRetries - 1" and "filter is_request tr = map Request [1..<1 + m]"
    by (auto simp: fetchWithRetry_def)
  then show ?thesis by (simp add: maxRetries_def)
qed

lemma fetchWithRetry_success_after_failures:
  assumes "1 \<le> k" and "k \<le> 5" and "\<forall>i. 1 \<le> i \<and> i < k \<longrightarrow> attempt_failed lib (server i)"
    and "server k = Downloaded body" and "ParseDelegatedExtended lib body = Some (recs, None)"
  shows "fetchWithRetry lib server name =
           Some (Inr recs, concat (map (attempt_events server) [1..<k]) @ [Request k])"
proof -
  from assms(1) have k: "1 + (k - 1) = k" by simp
  from assms(2) have le: "k \<le> maxRetries" by (simp add: maxRetries_def)
  have "fetch_loop lib server name 1 None [] =
          fetch_loop lib server name (1 + (k - 1))
            (if k - 1 = 0 then None else attempt_error lib (server (1 + (k - 1) - 1)))
            ([] @ concat (map (attempt_events server) [1..<1 + (k - 1)]))"
    using assms(1,3) le by (intro fetch_loop_failures) auto
  also have "\<dots> = Some (Inr recs, concat (map (attempt_events server) [1..<k]) @ [Request k])"
    unfolding k using le assms(4,5) by (simp add: fetch_loop_success)
  finally show ?thesis by (simp add: fetchWithRetry_def)
qed

lemma fetchWithRetry_gives_up:
  assumes "\<forall>i. 1 \<le> i \<and> i \<le> 5 \<longrightarrow> attempt_failed lib (server i)"
  shows "fetchWithRetry lib server name =
           Some (Inl (''failed to fetch '' @ name @ '' after 5 attempts: '' @
                      errorText (attempt_error lib (server 5))),
                 concat (map (attempt_events server) [1..<6]))"
proof -
  have "fetch_loop lib server name 1 None [] =
          fetch_loop lib server name (1 + 5)
            (if (5 :: nat) = 0 then None else attempt_error lib (server (1 + 5 - 1)))
            ([] @ concat (map (attempt_events server) [1..<1 + 5]))"
    using assms by (intro fetch_loop_failures) (auto simp: maxRetries_def)
  also have "\<dots> = Some (Inl (''failed to fetch '' @ name @ '' after 5 attempts: '' @
                      errorText (attempt_error lib (server 5))),
                 concat (map (attempt_events server) [1..<6]))"
    by (subst fetch_loop_exhausted) (simp_all add: maxRetries_def)
  finally show ?thesis by (simp add: fetchWithRetry_def)
qed

lemma transport_events: "transport_failure (server i) \<Longrightarrow> attempt_events server i = [Request i, Sleep (i * 10)]"
  by (simp add: attempt_events_def)

lemma parse_failure_events: "parse_failure lib (server i) \<Longrightarrow> attempt_events server i = [Request i]"
  using transport_not_parse [of "server i" lib] by (auto simp: attempt_events_def)

lemma transport_attempt_error:
  "transport_failure x \<Longrightarrow> errorText (attempt_error lib x) = transport_error x"
  by (simp add: transport_failure_def attempt_error_def transport_error_def errorText_def
      split: outcome.splits)

lemma ParseDelegatedExtended_empty: "ParseDelegatedExtended lib [] = Some ([], None)"
  by (simp add: ParseDelegatedExtended_def Scanner.simps)

lemma ParseDelegatedExtended_too_long:
  "ParseDelegatedExtended lib (replicate maxTokenSize (CHR ''x'')) = Some ([], Some ErrTooLong)"
proof -
  have "replicate maxTokenSize (CHR ''x'') \<noteq> []"
    by (simp add: maxTokenSize_def)
  then have "Scanner (replicate maxTokenSize (CHR ''x'')) = ([], Some ErrTooLong)"
    by (subst Scanner.simps) (simp add: Let_def)
  then show ?thesis
    by (simp add: ParseDelegatedExtended_def)
qed

text \<open>
  Claim C7. The fetcher sends at most 5 requests to a source. When the attempts before
  attempt \<open>k\<close> (at most 5) fail in transport and attempt \<open>k\<close> succeeds, attempt \<open>i\<close> is
  followed by a wait of \<open>i * 10\<close> seconds and then by attempt \<open>i + 1\<close>, and the records of
  the body of attempt \<open>k\<close> are returned. When all 5 attempts fail in transport, the
  fetcher ends in a fatal error whose message names the source and the 5 attempts.
\<close>

theorem fetch_retry_protocol:
  "(fetchWithRetry lib server name = Some (res, tr) \<longrightarrow> length (filter is_request tr) \<le> 5) \<and>
   (1 \<le> k \<and> k \<le> 5 \<and> (\<forall>i. 1 \<le> i \<and> i < k \<longrightarrow> transport_failure (server i)) \<and>
    server k = Downloaded body \<and> ParseDelegatedExtended lib body = Some (recs, None) \<longrightarrow>
      fetchWithRetry lib server name =
        Some (Inr recs, concat (map (\<lambda>i. [Request i, Sleep (i * 10)]) [1..<k]) @ [Request k])) \<and>
   ((\<forall>i. 1 \<le> i \<and> i \<le> 5 \<longrightarrow> transport_failure (server i)) \<longrightarrow>
      fetchWithRetry lib server name =
        Some (Inl (''failed to fetch '' @ name @ '' after 5 attempts: '' @ transport_error (server 5)),
              concat (map (\<lambda>i. [Request i, Sleep (i * 10)]) [1..<6])))"
proof (intro conjI impI)
  assume "fetchWithRetry lib server name = Some (res, tr)"
  then show "length (filter is_request tr) \<le> 5"
    by (rule fetchWithRetry_at_most_5_requests)
next
  assume h: "1 \<le> k \<and> k \<le> 5 \<and> (\<forall>i. 1 \<le> i \<and> i < k \<longrightarrow> transport_failure (server i)) \<and>
    server k = Downloaded body \<and> ParseDelegatedExtended lib body = Some (recs, None)"
  then have ev: "map (attempt_events server) [1..<k] = map (\<lambda>i. [Request i, Sleep (i * 10)]) [1..<k]"
    by (intro map_cong refl transport_events) simp
  from h have "fetchWithRetry lib server name =
      Some (Inr recs, concat (map (attempt_events server) [1..<k]) @ [Request k])"
    by (intro fetchWithRetry_success_after_failures [where body = body])
       (simp_all add: attempt_failed_def)
  then show "fetchWithRetry lib server name =
        Some (Inr recs, concat (map (\<lambda>i. [Request i, Sleep (i * 10)]) [1..<k]) @ [Request k])"
    by (simp only: ev)
next
  assume h: "\<forall>i. 1 \<le> i \<and> i \<le> 5 \<longrightarrow> transport_failure (server i)"
  then have ev: "map (attempt_events server) [1..<6] = map (\<lambda>i. [Request i, Sleep (i * 10)]) [1..<6]"
    by (intro map_cong refl transport_events) simp
  from h have e: "errorText (attempt_error lib (server 5)) = transport_error (server 5)"
    by (intro transport_attempt_error) simp
  from h have "fetchWithRetry lib server name =
           Some (Inl (''failed to fetch '' @ name @ '' after 5 attempts: '' @
                      errorText (attempt_error lib (server 5))),
                 concat (map (attempt_events server) [1..<6]))"
    by (intro fetchWithRetry_gives_up) (simp add: attempt_failed_def)
  then show "fetchWithRetry lib server name =
        Some (Inl (''failed to fetch '' @ name @ '' after 5 attempts: '' @ transport_error (server 5)),
              concat (map (\<lambda>i. [Request i, Sleep (i * 10)]) [1..<6]))"
    by (simp only: ev e)
qed

text \<open>
  The theorem at two transport failures followed by a success, and at five transport
  failures.
\<close>

theorem fetch_retry_protocol_witness:
  "transport_failure (ConnectFailed ''reset'') \<and> transport_failure (DownloadFailed ''unexpected EOF'') \<and>
   ParseDelegatedExtended ascii_lib [] = Some ([], None) \<and>
   fetchWithRetry ascii_lib
     (\<lambda>n. if n = 1 then ConnectFailed ''reset'' else if n = 2 then DownloadFailed ''unexpected EOF''
           else Downloaded []) ''arin'' =
     Some (Inr [], [Request 1, Sleep 10, Request 2, Sleep 20, Request 3]) \<and>
   fetchWithRetry ascii_lib (\<lambda>n. ConnectFailed ''reset'') ''arin'' =
     Some (Inl ''failed to fetch arin after 5 attempts: reset'',
           [Request 1, Sleep 10, Request 2, Sleep 20, Request 3, Sleep 30, Request 4, Sleep 40,
            Request 5, Sleep 50])"
proof -
  let ?s1 = "\<lambda>n :: nat. if n = 1 then ConnectFailed ''reset''
                else if n = 2 then DownloadFailed ''unexpected EOF'' else Downloaded []"
  let ?s2 = "\<lambda>n :: nat. ConnectFailed ''reset''"
  have t: "transport_failure (ConnectFailed ''reset'')" "transport_failure (DownloadFailed ''unexpected EOF'')"
    by (simp_all add: transport_failure_def)
  have f1: "\<forall>i. 1 \<le> i \<and> i < 3 \<longrightarrow> transport_failure (?s1 i)"
    using t by auto
  have f2: "\<forall>i. 1 \<le> i \<and> i \<le> 5 \<longrightarrow> transport_failure (?s2 i)"
    using t by simp
  from fetch_retry_protocol [where server = ?s1 and k = 3 and body = "[]" and recs = "[]"
      and lib = ascii_lib and name = "''arin''"] f1
  have r1: "fetchWithRetry ascii_lib ?s1 ''arin'' =
     Some (Inr [], [Request 1, Sleep 10, Request 2, Sleep 20, Request 3])"
    by (simp add: ParseDelegatedExtended_empty upt_rec)
  from fetch_retry_protocol [where server = ?s2 and lib = ascii_lib and name = "''arin''"] f2
  have r2: "fetchWithRetry ascii_lib ?s2 ''arin'' =
     Some (Inl ''failed to fetch arin after 5 attempts: reset'',
           [Request 1, Sleep 10, Request 2, Sleep 20, Request 3, Sleep 30, Request 4, Sleep 40,
            Request 5, Sleep 50])"
    by (simp add: transport_error_def upt_rec)
  from t r1 r2 show ?thesis
    by (simp add: ParseDelegatedExtended_empty)
qed

text \<open>
  Claim C6, amended. A body that is read in full and rejected by the parser counts as a
  failed attempt like a transport failure, except that no wait follows it: while attempts
  remain, the next request is sent at once, and a later success is returned; after the
  fifth failed attempt the fetch ends in the fatal error. Only transport failures are
  followed by a wait.
\<close>

theorem parse_failure_is_retried:
  assumes "1 \<le> k" and "k \<le> 5" and "\<forall>i. 1 \<le> i \<and> i < k \<longrightarrow> attempt_failed lib (server i)"
  shows "(server k = Downloaded body \<and> ParseDelegatedExtended lib body = Some (recs, None) \<longrightarrow>
            fetchWithRetry lib server name =
              Some (Inr recs, concat (map (attempt_events server) [1..<k]) @ [Request k])) \<and>
         (k = 5 \<and> attempt_failed lib (server 5) \<longrightarrow>
            fetchWithRetry lib server name =
              Some (Inl (''failed to fetch '' @ name @ '' after 5 attempts: '' @
                         errorText (attempt_error lib (server 5))),
                    concat (map (attempt_events server) [1..<6]))) \<and>
         (\<forall>i. parse_failure lib (server i) \<longrightarrow> attempt_events server i = [Request i]) \<and>
         (\<forall>i. transport_failure (server i) \<longrightarrow> attempt_events server i = [Request i, Sleep (i * 10)])"
proof (intro conjI impI allI)
  assume "server k = Downloaded body \<and> ParseDelegatedExtended lib body = Some (recs, None)"
  with assms show "fetchWithRetry lib server name =
              Some (Inr recs, concat (map (attempt_events server) [1..<k]) @ [Request k])"
    by (intro fetchWithRetry_success_after_failures [where body = body]) simp_all
next
  assume "k = 5 \<and> attempt_failed lib (server 5)"
  with assms(3) have "\<forall>i. 1 \<le> i \<and> i \<le> 5 \<longrightarrow> attempt_failed lib (server i)"
    by (metis le_neq_implies_less)
  then show "fetchWithRetry lib server name =
              Some (Inl (''failed to fetch '' @ name @ '' after 5 attempts: '' @
                         errorText (attempt_error lib (server 5))),
                    concat (map (attempt_events server) [1..<6]))"
    by (rule fetchWithRetry_gives_up)
next
  fix i assume "parse_failure lib (server i)"
  then show "attempt_events server i = [Request i]" by (rule parse_failure_events)
next
  fix i assume "transport_failure (server i)"
  then show "attempt_events server i = [Request i, Sleep (i * 10)]" by (rule transport_events)
qed

text \<open>
  Claim C6 as stated fails: the body of attempt 1 is rejected by the parser (a line over
  the token limit), and the fetcher sends a second request and returns its records.
\<close>

theorem parse_failure_followed_by_download_counterexample:
  "ParseDelegatedExtended ascii_lib (replicate maxTokenSize (CHR ''x'')) = Some ([], Some ErrTooLong) \<and>
   fetchWithRetry ascii_lib
     (\<lambda>n. if n = 1 then Downloaded (replicate maxTokenSize (CHR ''x'')) else Downloaded []) ''arin'' =
     Some (Inr [], [Request 1, Request 2])"
proof -
  let ?s = "\<lambda>n :: nat. if n = 1 then Downloaded (replicate maxTokenSize (CHR ''x'')) else Downloaded []"
  have pf: "parse_failure ascii_lib (?s 1)"
    by (simp add: parse_failure_def ParseDelegatedExtended_too_long)
  have "fetch_loop ascii_lib ?s ''arin'' 1 None [] =
          fetch_loop ascii_lib ?s ''arin'' (Suc 1) (attempt_error ascii_lib (?s 1)) ([] @ [Request 1])"
    by (rule fetch_loop_parse_failure [where server = ?s and attempt = 1, OF _ pf])
       (simp add: maxRetries_def)
  also have "\<dots> = Some (Inr [], [Request 1, Request 2])"
    by (subst fetch_loop_success [where server = ?s and attempt = "Suc 1" and body = "[]" and recs = "[]"])
       (simp_all add: maxRetries_def ParseDelegatedExtended_empty)
  finally show ?thesis
    by (simp add: fetchWithRetry_def ParseDelegatedExtended_too_long)
qed

text \<open>
  The theorem at a parse failure followed by a success, and at five parse failures.
\<close>

theorem parse_failure_is_retried_witness:
  "parse_failure ascii_lib (Downloaded (replicate maxTokenSize (CHR ''x''))) \<and>
   ParseDelegatedExtended ascii_lib [] = Some ([], None) \<and>
   fetchWithRetry ascii_lib
     (\<lambda>n. if n = 1 then Downloaded (replicate maxTokenSize (CHR ''x'')) else Downloaded []) ''arin'' =
     Some (Inr [], [Request 1, Request 2]) \<and>
   fetchWithRetry ascii_lib (\<lambda>n. Downloaded (replicate maxTokenSize (CHR ''x''))) ''arin'' =
     Some (Inl ''failed to fetch arin after 5 attempts: bufio.Scanner: token too long'',
           [Request 1, Request 2, Request 3, Request 4, Request 5])"
proof -
  let ?bad = "Downloaded (replicate maxTokenSize (CHR ''x''))"
  let ?s1 = "\<lambda>n :: nat. if n = 1 then ?bad else Downloaded []"
  let ?s2 = "\<lambda>n :: nat. ?bad"
  have pf: "parse_failure ascii_lib ?bad"
    by (simp add: parse_failure_def ParseDelegatedExtended_too_long)
  then have af: "attempt_failed ascii_lib ?bad"
    by (simp add: attempt_failed_def)
  have ntf: "\<not> transport_failure ?bad" by (simp add: transport_failure_def)
  have f1: "\<forall>i. 1 \<le> i \<and> i < 2 \<longrightarrow> attempt_failed ascii_lib (?s1 i)"
    using af by auto
  have f2: "\<forall>i. 1 \<le> i \<and> i < 5 \<longrightarrow> attempt_failed ascii_lib (?s2 i)"
    using af by simp
  have two: "(1 :: nat) \<le> 2" "(2 :: nat) \<le> 5" and five: "(1 :: nat) \<le> 5" "(5 :: nat) \<le> 5"
    by simp_all
  from parse_failure_is_retried [OF two f1, where body = "[]" and recs = "[]" and name = "''arin''"]
  have r1: "fetchWithRetry ascii_lib ?s1 ''arin'' = Some (Inr [], [Request 1, Request 2])"
    by (simp add: ParseDelegatedExtended_empty upt_rec attempt_events_def ntf)
  from parse_failure_is_retried [OF five f2, where name = "''arin''"] af
  have r2: "fetchWithRetry ascii_lib ?s2 ''arin'' =
     Some (Inl ''failed to fetch arin after 5 attempts: bufio.Scanner: token too long'',
           [Request 1, Request 2, Request 3, Request 4, Request 5])"
    by (simp add: upt_rec attempt_events_def ntf attempt_error_def ParseDelegatedExtended_too_long
        errorText_def)
  from pf r1 r2 show ?thesis
    by (simp add: ParseDelegatedExtended_empty)
qed

section \<open>The parser\<close>

lemma ipv4RangeToCIDRs_single:
  "ipv4RangeToCIDRs lib ''1.0.0.0'' ''1'' ''AU'' = Some [\<lparr>Prefix = ''1.0.0.0/32'', Country = ''AU''\<rparr>]"
proof -
  have b: "uint (ipToUint32 [1, 0, 0, 0]) + 1 < 2 ^ 32"
    by (simp add: ipToUint32_1_0_0_0)
  show ?thesis
    using ipv4RangeToCIDRs_blocks [OF ParseIP_1_0_0_0 To4_mapped Atoi_1 zero_less_one b, where cc = "''AU''"]
    by (simp add: ipToUint32_1_0_0_0 addrs_from_def block_record_def uint32ToIP_def byte_def
        fmt_d.simps digitChar_def)
qed









section \<open>The pipeline\<close>

lemma merge_inv_conflict_free: "merge_inv seen out pre \<Longrightarrow> conflict_free pre"
  unfolding merge_inv_def conflict_free_iff by (metis option.inject)

lemma merge_loop_Inr:
  assumes "merge_inv seen out pre" and "merge_loop seen out rs = Inr out'"
  shows "\<exists>seen'. merge_inv seen' out' (pre @ rs)"
  using assms
proof (induction rs arbitrary: seen out pre)
  case Nil
  then show ?case by auto
next
  case (Cons r rs)
  show ?case
  proof (cases "seen (Prefix r)")
    case None
    with Cons.prems(1) have inv: "merge_inv (seen(Prefix r \<mapsto> Country r)) (out @ [r]) (pre @ [r])"
      by (rule merge_inv_new)
    from Cons.prems(2) None have "merge_loop (seen(Prefix r \<mapsto> Country r)) (out @ [r]) rs = Inr out'"
      by simp
    from Cons.IH [OF inv this] show ?thesis by simp
  next
    case (Some prev)
    with Cons.prems(2) have prev: "prev = Country r" and run: "merge_loop seen out rs = Inr out'"
      by (simp_all split: if_splits)
    from Cons.prems(1) Some prev have "merge_inv seen out (pre @ [r])"
      by (intro merge_inv_known) simp_all
    from Cons.IH [OF this run] show ?thesis by simp
  qed
qed

lemma merge_Inr_inv: "merge all = Inr out \<Longrightarrow> \<exists>seen. merge_inv seen out all"
  using merge_loop_Inr [OF merge_inv_empty, of "all" out] by (simp add: merge_def)

lemma merge_inv_set:
  assumes "merge_inv seen out pre"
  shows "set out = set pre"
proof
  show "set out \<subseteq> set pre"
  proof
    fix r assume "r \<in> set out"
    with assms have "find (\<lambda>x. Prefix x = Prefix r) pre = Some r"
      unfolding merge_inv_def by blast
    then show "r \<in> set pre"
      by (auto simp: find_Some_iff)
  qed
  then have sub: "\<And>r. r \<in> set out \<Longrightarrow> r \<in> set pre" by blast
  show "set pre \<subseteq> set out"
  proof
    fix r assume r: "r \<in> set pre"
    with assms have "Prefix r \<in> Prefix ` set out"
      unfolding merge_inv_def by blast
    then obtain r' where r': "r' \<in> set out" and p: "Prefix r = Prefix r'"
      by (rule imageE)
    from sub [OF r'] r p merge_inv_conflict_free [OF assms] have "Country r = Country r'"
      unfolding conflict_free_iff by metis
    with p have "r = r'" by simp
    with r' show "r \<in> set out" by simp
  qed
qed

lemma fetch_all_Inr:
  "fetch_all lib net order all src = Some (Inr (all', src')) \<longleftrightarrow>
     (\<forall>s\<in>set order. source_records lib net s \<noteq> None) \<and>
     all' = all @ concat (map (\<lambda>s. the (source_records lib net s)) order) \<and>
     src' = src @ map (\<lambda>s. fst s @ ''-delegated'') order"
proof (induction order arbitrary: all src)
  case Nil
  then show ?case by auto
next
  case (Cons s order)
  obtain name url where s: "s = (name, url)" by (cases s)
  show ?case
    unfolding s
    by (auto simp add: Cons.IH source_records_def split: option.splits sum.splits prod.splits)
qed

lemma conflict_free_set_cong: "set xs = set ys \<Longrightarrow> conflict_free xs = conflict_free ys"
  by (simp add: conflict_free_iff)

lemma build_Inr:
  "build lib net order = Some (Inr (recs, srcs)) \<longleftrightarrow>
     (\<forall>s\<in>set order. source_records lib net s \<noteq> None) \<and>
     merge (concat (map (\<lambda>s. the (source_records lib net s)) order)) = Inr recs \<and>
     srcs = sort (map (\<lambda>s. fst s @ ''-delegated'') order)"
proof -
  let ?all = "concat (map (\<lambda>s. the (source_records lib net s)) order)"
  let ?src = "map (\<lambda>s. fst s @ ''-delegated'') order"
  show ?thesis
  proof (cases "\<forall>s\<in>set order. source_records lib net s \<noteq> None")
    case True
    then have "fetch_all lib net order [] [] = Some (Inr (?all, ?src))"
      by (simp add: fetch_all_Inr)
    then show ?thesis
      using True by (auto simp add: build_def split: sum.splits)
  next
    case False
    then have "fetch_all lib net order [] [] \<noteq> Some (Inr (all', src'))" for all' src'
      by (simp add: fetch_all_Inr)
    with False show ?thesis
      by (auto simp add: build_def split: option.splits sum.splits)
  qed
qed

lemma sorted_by_Prefix_unique:
  assumes "distinct (map Prefix recs)" and "mset s = mset recs" and "sorted (map Prefix s)"
  shows "s = sort_Slice recs"
proof -
  from assms(1) have "inj_on Prefix (set recs)" by (simp add: distinct_map)
  with assms(2,3) have "sort_key Prefix recs = s"
    by (intro sort_key_inj_key_eq) simp_all
  then show ?thesis by (simp add: sort_Slice_def)
qed

lemma build_order_independent:
  assumes perm: "mset order' = mset order"
    and same: "\<forall>s\<in>set order. source_records lib net' s = source_records lib net s"
    and run: "build lib net order = Some (Inr (recs, srcs))"
  shows "\<exists>recs'. build lib net' order' = Some (Inr (recs', srcs)) \<and>
           distinct (map Prefix recs') \<and> mset recs' = mset recs"
proof -
  let ?f = "\<lambda>s. the (source_records lib net s)"
  let ?f' = "\<lambda>s. the (source_records lib net' s)"
  let ?g = "\<lambda>s :: string \<times> string. fst s @ ''-delegated''"
  from perm have sets: "set order' = set order" by (rule mset_eq_setD)
  from run have ok: "\<forall>s\<in>set order. source_records lib net s \<noteq> None"
    and m: "merge (concat (map ?f order)) = Inr recs"
    and srcs: "srcs = sort (map ?g order)"
    by (simp_all add: build_Inr)
  from ok same sets have ok': "\<forall>s\<in>set order'. source_records lib net' s \<noteq> None"
    by simp
  from m obtain seen where inv: "merge_inv seen recs (concat (map ?f order))"
    using merge_Inr_inv by blast
  have "set (concat (map ?f' order')) = (\<Union>s\<in>set order. set (?f' s))"
    using sets by simp
  also have "\<dots> = (\<Union>s\<in>set order. set (?f s))"
    using same by simp
  finally have all: "set (concat (map ?f' order')) = set (concat (map ?f order))"
    by simp
  from inv have "conflict_free (concat (map ?f order))" by (rule merge_inv_conflict_free)
  with conflict_free_set_cong [OF all] have "conflict_free (concat (map ?f' order'))"
    by blast
  then obtain seen' recs' where m': "merge (concat (map ?f' order')) = Inr recs'"
    and inv': "merge_inv seen' recs' (concat (map ?f' order'))"
    using merge_conflict_free by blast
  from inv inv' all have "set recs' = set recs"
    by (simp add: merge_inv_set)
  moreover from inv have d: "distinct (map Prefix recs)" by (simp add: merge_inv_def)
  moreover from inv' have d': "distinct (map Prefix recs')" by (simp add: merge_inv_def)
  ultimately have ms: "mset recs' = mset recs"
    by (simp add: distinct_map flip: set_eq_iff_mset_eq_distinct)
  from perm have "mset (map ?g order) = mset (sort (map ?g order'))" by simp
  then have "sort (map ?g order) = sort (map ?g order')"
    by (intro properties_for_sort) simp_all
  with srcs have "srcs = sort (map ?g order')" by simp
  with ok' m' have "build lib net' order' = Some (Inr (recs', srcs))"
    by (simp add: build_Inr)
  with d' ms show ?thesis by blast
qed

text \<open>
  Claim C9. Take a run that ends with an artifact, and a second run that meets the
  sources in another order and gets the same records from each of them (its transport
  failures may differ). The second run ends with an artifact too; the merged records of
  the two runs are the same up to their order; sorted by prefix they are the same list,
  and there is no other list of these records in prefix order; so the two runs write the
  same file, with the same size and digest, and the same list of sources.
\<close>

theorem artifact_independent_of_source_order:
  assumes "mset order' = mset order"
    and "\<forall>s\<in>set order. source_records lib net' s = source_records lib net s"
    and "build lib net order = Some (Inr (recs, srcs))"
  shows "\<exists>recs'. build lib net' order' = Some (Inr (recs', srcs)) \<and>
           mset recs' = mset recs \<and>
           sort_Slice recs' = sort_Slice recs \<and>
           sorted (map Prefix (sort_Slice recs)) \<and>
           (\<forall>s. mset s = mset recs' \<and> sorted (map Prefix s) \<longrightarrow> s = sort_Slice recs) \<and>
           main lib gzip sha256hex net' order' = main lib gzip sha256hex net order \<and>
           main lib gzip sha256hex net order =
             Some (Inr ((gzip (csv_text (sort_Slice recs)),
                         length (gzip (csv_text (sort_Slice recs))),
                         sha256hex (gzip (csv_text (sort_Slice recs)))), srcs))"
proof -
  from build_order_independent [OF assms] obtain recs'
    where run': "build lib net' order' = Some (Inr (recs', srcs))"
      and d': "distinct (map Prefix recs')" and ms: "mset recs' = mset recs"
    by blast
  have u: "s = sort_Slice recs'" if "mset s = mset recs'" and "sorted (map Prefix s)" for s
    using d' that by (rule sorted_by_Prefix_unique)
  have sorted: "sorted (map Prefix (sort_Slice recs))"
    by (simp add: sort_Slice_def)
  have "mset (sort_Slice recs) = mset recs'"
    using ms by (simp add: sort_Slice_def)
  from u [OF this sorted] have eq: "sort_Slice recs' = sort_Slice recs" by simp
  have "main lib gzip sha256hex net' order' = main lib gzip sha256hex net order"
    using run' assms(3) eq by (simp add: main_def)
  moreover have "main lib gzip sha256hex net order =
             Some (Inr ((gzip (csv_text (sort_Slice recs)),
                         length (gzip (csv_text (sort_Slice recs))),
                         sha256hex (gzip (csv_text (sort_Slice recs)))), srcs))"
    using assms(3) by (simp add: main_def writeCSVGZ_def Let_def)
  ultimately show ?thesis
    using run' ms eq sorted u by (intro exI [of _ recs']) (simp add: eq)
qed

lemma fetchWithRetry_first_try:
  assumes "server 1 = Downloaded body" and "ParseDelegatedExtended lib body = Some (recs, None)"
  shows "fetchWithRetry lib server name = Some (Inr recs, [Request 1])"
  unfolding fetchWithRetry_def
  by (subst fetch_loop_success [where server = server and attempt = 1, OF _ assms])
     (simp_all add: maxRetries_def)

lemma ParseIP_10_0_0_0: "ParseIP lib ''10.0.0.0'' = Some [0, 0, 0, 0, 0, 0, 0, 0, 0, 0, 0xFF, 0xFF, 10, 0, 0, 0]"
  by (simp add: ParseIP_def parseIPv4_def isDigit_def digitVal_def)

lemma ipToUint32_10_0_0_0: "ipToUint32 [10, 0, 0, 0] = 0x0A000000"
  by (simp add: ipToUint32_def)

lemma ipv4RangeToCIDRs_single_10:
  "ipv4RangeToCIDRs lib ''10.0.0.0'' ''1'' ''US'' = Some [\<lparr>Prefix = ''10.0.0.0/32'', Country = ''US''\<rparr>]"
proof -
  have b: "uint (ipToUint32 [10, 0, 0, 0]) + 1 < 2 ^ 32"
    by (simp add: ipToUint32_10_0_0_0)
  show ?thesis
    using ipv4RangeToCIDRs_blocks [OF ParseIP_10_0_0_0 To4_mapped Atoi_1 zero_less_one b, where cc = "''US''"]
    by (simp add: ipToUint32_10_0_0_0 addrs_from_def block_record_def uint32ToIP_def byte_def
        fmt_d.simps digitChar_def)
qed

lemma parse_arin_body:
  "ParseDelegatedExtended lib ''arin|AU|ipv4|1.0.0.0|1|20110811|allocated|x'' =
     Some ([\<lparr>Prefix = ''1.0.0.0/32'', Country = ''AU''\<rparr>], None)"
  by (simp add: ParseDelegatedExtended_def Scanner.simps maxTokenSize_def dropCR_def
      process_line_def HasPrefix_def ToUpper_def upperChar_def isCountryCode_def
      ipv4RangeToCIDRs_single)

lemma parse_ripe_body:
  "ParseDelegatedExtended lib ''ripencc|US|ipv4|10.0.0.0|1|20110811|assigned|y'' =
     Some ([\<lparr>Prefix = ''10.0.0.0/32'', Country = ''US''\<rparr>], None)"
  by (simp add: ParseDelegatedExtended_def Scanner.simps maxTokenSize_def dropCR_def
      process_line_def HasPrefix_def ToUpper_def upperChar_def isCountryCode_def
      ipv4RangeToCIDRs_single_10)

lemma fetch_after_reset:
  assumes "ParseDelegatedExtended lib body = Some (recs, None)"
  shows "fetchWithRetry lib (\<lambda>n. if n = 1 then ConnectFailed ''reset'' else Downloaded body) name =
           Some (Inr recs, [Request 1, Sleep 10, Request 2])"
proof -
  let ?s = "\<lambda>n :: nat. if n = 1 then ConnectFailed ''reset'' else Downloaded body"
  have f: "\<forall>i. 1 \<le> i \<and> i < 2 \<longrightarrow> attempt_failed lib (?s i)"
    by (auto simp: attempt_failed_def transport_failure_def)
  have "fetchWithRetry lib ?s name =
          Some (Inr recs, concat (map (attempt_events ?s) [1..<2]) @ [Request 2])"
    using f assms by (intro fetchWithRetry_success_after_failures [where body = body]) simp_all
  then show ?thesis
    by (simp add: upt_rec attempt_events_def transport_failure_def)
qed

text \<open>
  The theorem at two sources met in opposite orders, the second run with a connection
  failure before each download.
\<close>

theorem artifact_independent_of_source_order_witness:
  "mset [(''ripe'', ''R''), (''arin'', ''A'')] = mset [(''arin'', ''A''), (''ripe'', ''R'')] \<and>
   list_all (\<lambda>s. source_records ascii_lib
       (\<lambda>url n. if n = 1 then ConnectFailed ''reset''
                 else if url = ''A'' then Downloaded ''arin|AU|ipv4|1.0.0.0|1|20110811|allocated|x''
                 else Downloaded ''ripencc|US|ipv4|10.0.0.0|1|20110811|assigned|y'') s =
     source_records ascii_lib
       (\<lambda>url n. if url = ''A'' then Downloaded ''arin|AU|ipv4|1.0.0.0|1|20110811|allocated|x''
                 else Downloaded ''ripencc|US|ipv4|10.0.0.0|1|20110811|assigned|y'') s)
     [(''arin'', ''A''), (''ripe'', ''R'')] \<and>
   build ascii_lib
     (\<lambda>url n. if url = ''A'' then Downloaded ''arin|AU|ipv4|1.0.0.0|1|20110811|allocated|x''
               else Downloaded ''ripencc|US|ipv4|10.0.0.0|1|20110811|assigned|y'')
     [(''arin'', ''A''), (''ripe'', ''R'')] =
     Some (Inr ([\<lparr>Prefix = ''1.0.0.0/32'', Country = ''AU''\<rparr>,
                 \<lparr>Prefix = ''10.0.0.0/32'', Country = ''US''\<rparr>],
                [''arin-delegated'', ''ripe-delegated''])) \<and>
   build ascii_lib
     (\<lambda>url n. if n = 1 then ConnectFailed ''reset''
               else if url = ''A'' then Downloaded ''arin|AU|ipv4|1.0.0.0|1|20110811|allocated|x''
               else Downloaded ''ripencc|US|ipv4|10.0.0.0|1|20110811|assigned|y'')
     [(''ripe'', ''R''), (''arin'', ''A'')] =
     Some (Inr ([\<lparr>Prefix = ''10.0.0.0/32'', Country = ''US''\<rparr>,
                 \<lparr>Prefix = ''1.0.0.0/32'', Country = ''AU''\<rparr>],
                [''arin-delegated'', ''ripe-delegated''])) \<and>
   main ascii_lib (\<lambda>x. x) (\<lambda>x. x)
     (\<lambda>url n. if n = 1 then ConnectFailed ''reset''
               else if url = ''A'' then Downloaded ''arin|AU|ipv4|1.0.0.0|1|20110811|allocated|x''
               else Downloaded ''ripencc|US|ipv4|10.0.0.0|1|20110811|assigned|y'')
     [(''ripe'', ''R''), (''arin'', ''A'')] =
   main ascii_lib (\<lambda>x. x) (\<lambda>x. x)
     (\<lambda>url n. if url = ''A'' then Downloaded ''arin|AU|ipv4|1.0.0.0|1|20110811|allocated|x''
               else Downloaded ''ripencc|US|ipv4|10.0.0.0|1|20110811|assigned|y'')
     [(''arin'', ''A''), (''ripe'', ''R'')] \<and>
   sort_Slice [\<lparr>Prefix = ''10.0.0.0/32'', Country = ''US''\<rparr>,
               \<lparr>Prefix = ''1.0.0.0/32'', Country = ''AU''\<rparr>] =
     [\<lparr>Prefix = ''1.0.0.0/32'', Country = ''AU''\<rparr>,
      \<lparr>Prefix = ''10.0.0.0/32'', Country = ''US''\<rparr>]"
proof -
  let ?A = "''arin|AU|ipv4|1.0.0.0|1|20110811|allocated|x''"
  let ?R = "''ripencc|US|ipv4|10.0.0.0|1|20110811|assigned|y''"
  let ?net = "\<lambda>(url :: string) (n :: nat). if url = ''A'' then Downloaded ?A else Downloaded ?R"
  let ?net' = "\<lambda>(url :: string) (n :: nat). if n = 1 then ConnectFailed ''reset''
                 else if url = ''A'' then Downloaded ?A else Downloaded ?R"
  let ?a = "\<lparr>Prefix = ''1.0.0.0/32'', Country = ''AU''\<rparr>"
  let ?u = "\<lparr>Prefix = ''10.0.0.0/32'', Country = ''US''\<rparr>"
  have fa: "fetchWithRetry ascii_lib (\<lambda>n. Downloaded ?A) ''arin'' = Some (Inr [?a], [Request 1])"
    by (rule fetchWithRetry_first_try [where body = ?A]) (simp_all add: parse_arin_body)
  have fr: "fetchWithRetry ascii_lib (\<lambda>n. Downloaded ?R) ''ripe'' = Some (Inr [?u], [Request 1])"
    by (rule fetchWithRetry_first_try [where body = ?R]) (simp_all add: parse_ripe_body)
  have fa': "fetchWithRetry ascii_lib (\<lambda>n. if n = 1 then ConnectFailed ''reset'' else Downloaded ?A) ''arin'' =
      Some (Inr [?a], [Request 1, Sleep 10, Request 2])"
    by (rule fetch_after_reset) (rule parse_arin_body)
  have fr': "fetchWithRetry ascii_lib (\<lambda>n. if n = 1 then ConnectFailed ''reset'' else Downloaded ?R) ''ripe'' =
      Some (Inr [?u], [Request 1, Sleep 10, Request 2])"
    by (rule fetch_after_reset) (rule parse_ripe_body)
  have s: "sort [''arin-delegated'', ''ripe-delegated''] = [''arin-delegated'', ''ripe-delegated'']"
    "sort [''ripe-delegated'', ''arin-delegated''] = [''arin-delegated'', ''ripe-delegated'']"
    by simp_all
  have same: "\<forall>s\<in>set [(''arin'', ''A''), (''ripe'', ''R'')].
      source_records ascii_lib ?net' s = source_records ascii_lib ?net s"
    by (simp add: source_records_def fa fr fa' fr' del: One_nat_def)
  have b1: "build ascii_lib ?net [(''arin'', ''A''), (''ripe'', ''R'')] =
      Some (Inr ([?a, ?u], [''arin-delegated'', ''ripe-delegated'']))"
    using s by (simp add: build_def fa fr merge_def)
  have b2: "build ascii_lib ?net' [(''ripe'', ''R''), (''arin'', ''A'')] =
      Some (Inr ([?u, ?a], [''arin-delegated'', ''ripe-delegated'']))"
    using s by (simp add: build_def fa' fr' merge_def del: One_nat_def)
  have perm: "mset [(''ripe'', ''R''), (''arin'', ''A'')] = mset [(''arin'', ''A''), (''ripe'', ''R'')]"
    by simp
  have srt: "sort_Slice [?u, ?a] = [?a, ?u]"
    by (simp add: sort_Slice_def)
  from artifact_independent_of_source_order [OF perm same b1, where gzip = "\<lambda>x. x" and ?sha256hex = "\<lambda>x. x"]
  have "main ascii_lib (\<lambda>x. x) (\<lambda>x. x) ?net' [(''ripe'', ''R''), (''arin'', ''A'')] =
        main ascii_lib (\<lambda>x. x) (\<lambda>x. x) ?net [(''arin'', ''A''), (''ripe'', ''R'')]"
    by blast
  moreover from same have "list_all (\<lambda>s. source_records ascii_lib ?net' s = source_records ascii_lib ?net s)
     [(''arin'', ''A''), (''ripe'', ''R'')]"
    by (simp only: list_all_iff)
  ultimately show ?thesis
    using perm b1 b2 srt by (simp only: simp_thms)
qed

end
